theory Spec2Isabelle
  imports Main "HOL-Library.Word"
begin

unbundle bit_operations_syntax

section \<open>The NCCL smoke test (src/NCCL/01/test.cc)\<close>

text \<open>
  The program talks to three libraries (MPI, CUDA, NCCL) and to the operating system.
  Every call into them is an input of the model: the value the call returns and what it
  writes through its out-parameters are supplied by the environment. What the program
  does with these values is translated from the source. Everything the program does
  that can be seen from outside is appended to a trace of events: what it prints and
  the library calls it makes, with the argument where a property speaks of it (for
  \<open>gethostname\<close>, the buffer as the call leaves it).
\<close>

subsection \<open>Result codes and constants of the headers\<close>

type_synonym ncclResult_t = int
type_synonym cudaError_t = int
type_synonym ncclComm_t = nat
type_synonym cchar = "8 word"
type_synonym uint64_t = "64 word"

definition ncclSuccess :: ncclResult_t where
  "ncclSuccess = 0"

definition cudaSuccess :: cudaError_t where
  "cudaSuccess = 0"

definition MPI_SUCCESS :: int where
  "MPI_SUCCESS = 0"

definition EXIT_FAILURE :: int where
  "EXIT_FAILURE = 1"

definition SIGTERM :: int where
  "SIGTERM = 15"

subsection \<open>Observable events\<close>

datatype event =
    Printf string
  | Call string
  | Call_gethostname "cchar list"
  | Call_cudaSetDevice int
  | Call_ncclCommGetAsyncError ncclComm_t
  | Call_ncclCommAbort ncclComm_t
  | Call_ncclAllReduce ncclComm_t
  | Call_ncclCommDestroy ncclComm_t

text \<open>
  What the build and the libraries fix: the expansion of \<open>__FILE__\<close>, the two functions
  that turn a result code into text, and whether plain \<open>char\<close> is a signed type.
\<close>

record config =
  file_name :: string
  cudaGetErrorString :: "cudaError_t \<Rightarrow> string"
  ncclGetErrorString :: "ncclResult_t \<Rightarrow> string"
  char_is_signed :: bool

subsection \<open>printf conversions\<close>

definition digit_char :: "nat \<Rightarrow> char" where
  "digit_char d = ''0123456789'' ! d"

function dec_nat :: "nat \<Rightarrow> string" where
  "dec_nat n = (if n < 10 then [digit_char n] else dec_nat (n div 10) @ [digit_char (n mod 10)])"
  by pat_completeness auto
termination
  by (relation "measure id") auto

text \<open>The conversion \<open>%d\<close>.\<close>

definition fmt_d :: "int \<Rightarrow> string" where
  "fmt_d i = (if i < 0 then CHR ''-'' # dec_nat (nat (- i)) else dec_nat (nat i))"

text \<open>
  The conversion \<open>%2.f\<close> of a whole, non-negative number of milliseconds: no fraction
  digits, padded on the left to two characters.
\<close>

definition fmt_2f :: "nat \<Rightarrow> string" where
  "fmt_2f ms = replicate (2 - length (dec_nat ms)) CHR '' '' @ dec_nat ms"

subsection \<open>The check macros\<close>

text \<open>
  A macro either lets control pass or prints one line and calls \<open>exit\<close> with the given
  status. \<open>ln\<close> is the expansion of \<open>__LINE__\<close> at the place of use.
\<close>

datatype check = Passed | Failed string int

definition MPICHECK :: "config \<Rightarrow> nat \<Rightarrow> int \<Rightarrow> check" where
  "MPICHECK cfg ln e =
     (if e \<noteq> MPI_SUCCESS
      then Failed (''Failed: MPI error '' @ file_name cfg @ '':'' @ dec_nat ln
                     @ '' '' @ [CHR 0x27] @ fmt_d e @ [CHR 0x27, CHR 0x0A]) EXIT_FAILURE
      else Passed)"

definition CUDACHECK :: "config \<Rightarrow> nat \<Rightarrow> cudaError_t \<Rightarrow> check" where
  "CUDACHECK cfg ln e =
     (if e \<noteq> cudaSuccess
      then Failed (''Failed: Cuda error '' @ file_name cfg @ '':'' @ dec_nat ln
                     @ '' '' @ [CHR 0x27] @ cudaGetErrorString cfg e @ [CHR 0x27, CHR 0x0A]) EXIT_FAILURE
      else Passed)"

definition NCCLCHECK :: "config \<Rightarrow> nat \<Rightarrow> ncclResult_t \<Rightarrow> check" where
  "NCCLCHECK cfg ln r =
     (if r \<noteq> ncclSuccess
      then Failed (''Failed, NCCL error '' @ file_name cfg @ '':'' @ dec_nat ln
                     @ '' '' @ [CHR 0x27] @ ncclGetErrorString cfg r @ [CHR 0x27, CHR 0x0A]) EXIT_FAILURE
      else Passed)"

subsection \<open>class NCCLComm\<close>

text \<open>
  The class has two members, the communicator and a mutex. Every method holds the mutex
  for its whole body, so the model runs each method as one step; the mutex itself is not
  part of the state.
\<close>

text \<open>The member \<open>nccl_comm_\<close> is written \<open>nccl_comm_member\<close>: a name cannot end in an underscore here.\<close>

record NCCLComm =
  nccl_comm_member :: ncclComm_t

definition NCCLComm_ctor :: "ncclComm_t \<Rightarrow> NCCLComm" where
  "NCCLComm_ctor nccl_comm = \<lparr> nccl_comm_member = nccl_comm \<rparr>"

definition NCCLComm_dtor :: "NCCLComm \<Rightarrow> event list" where
  "NCCLComm_dtor h = [Call_ncclCommDestroy (nccl_comm_member h)]"

definition GetNCCLComm :: "NCCLComm \<Rightarrow> ncclComm_t" where
  "GetNCCLComm h = nccl_comm_member h"

text \<open>
  What the environment answers during one call of \<open>CheckNCCLError\<close>: the value returned
  by \<open>ncclCommGetAsyncError\<close>, the code it stores in \<open>result\<close>, the value returned by
  \<open>ncclCommAbort\<close>, and the milliseconds the steady clock measures around the abort.
  The last two are read only when the abort is called.
\<close>

record health_reply =
  query_ret :: ncclResult_t
  async_result :: ncclResult_t
  abort_ret :: ncclResult_t
  abort_ms :: nat

text \<open>
  The method returns the object after the call, the events of the call, and the exit
  status when the call ended the process.
\<close>

definition CheckNCCLError ::
  "config \<Rightarrow> health_reply \<Rightarrow> NCCLComm \<Rightarrow> NCCLComm \<times> event list \<times> int option" where
  "CheckNCCLError cfg r h =
     (let t1 = [Call_ncclCommGetAsyncError (nccl_comm_member h)] in
      case NCCLCHECK cfg 66 (query_ret r) of
        Failed msg st \<Rightarrow> (h, t1 @ [Printf msg], Some st)
      | Passed \<Rightarrow>
          if async_result r \<noteq> ncclSuccess then
            (let t2 = t1 @ [Printf (''ncclCommGetAsyncError result: ''
                                     @ ncclGetErrorString cfg (async_result r) @ [CHR 0x0A]),
                            Printf (''[DEBUG] ncclComAbort starts!'' @ [CHR 0x0A]),
                            Call_ncclCommAbort (nccl_comm_member h)] in
             case NCCLCHECK cfg 71 (abort_ret r) of
               Failed msg st \<Rightarrow> (h, t2 @ [Printf msg], Some st)
             | Passed \<Rightarrow>
                 (h, t2 @ [Printf (''[DEBUG] ncclComAbort finishes! Time elapsed = ''
                                    @ fmt_2f (abort_ms r) @ '' ms.'' @ [CHR 0x0A])], None))
          else (h, t1, None))"

subsection \<open>getHostHash and getHostName\<close>

text \<open>
  In \<open>result ^ string[c]\<close> the character is promoted to \<open>int\<close> and then converted to
  the unsigned 64-bit type: a signed \<open>char\<close> is sign-extended, an unsigned one is
  zero-extended.
\<close>

definition char_to_uint64 :: "bool \<Rightarrow> cchar \<Rightarrow> uint64_t" where
  "char_to_uint64 sg ch = (if sg then scast ch else ucast ch)"

text \<open>
  The argument is the memory from the pointer on, as far as it belongs to the array.
  Running off its end without meeting the terminator is undefined behaviour: \<open>None\<close>.
\<close>

primrec getHostHash_loop :: "bool \<Rightarrow> cchar list \<Rightarrow> uint64_t \<Rightarrow> uint64_t option" where
  "getHostHash_loop sg [] result = None"
| "getHostHash_loop sg (ch # rest) result =
     (if ch = 0 then Some result
      else getHostHash_loop sg rest ((push_bit 5 result + result) XOR char_to_uint64 sg ch))"

definition getHostHash :: "config \<Rightarrow> cchar list \<Rightarrow> uint64_t option" where
  "getHostHash cfg string = getHostHash_loop (char_is_signed cfg) string 5381"

text \<open>
  \<open>getHostName\<close> first lets \<open>gethostname\<close> fill the buffer (the system call is a
  parameter: it maps the buffer and the length to the buffer afterwards), then scans
  it. A read beyond the array is undefined behaviour: \<open>None\<close>. The character \<open>'.'\<close> is 46.
\<close>

function getHostName_loop :: "cchar list \<Rightarrow> int \<Rightarrow> nat \<Rightarrow> cchar list option" where
  "getHostName_loop hostname maxlen i =
     (if int i < maxlen then
        (if \<not> i < length hostname then None
         else if hostname ! i = 46 then Some (hostname[i := 0])
         else getHostName_loop hostname maxlen (Suc i))
      else Some hostname)"
  by pat_completeness auto
termination
  by (relation "measure (\<lambda>(hostname, maxlen, i). nat (maxlen - int i))") auto

definition getHostName ::
  "(cchar list \<Rightarrow> int \<Rightarrow> cchar list) \<Rightarrow> cchar list \<Rightarrow> int \<Rightarrow> cchar list option" where
  "getHostName gethostname hostname maxlen = getHostName_loop (gethostname hostname maxlen) maxlen 0"

subsection \<open>The loop of main that computes localRank\<close>

function localRank_loop :: "uint64_t list \<Rightarrow> int \<Rightarrow> int \<Rightarrow> nat \<Rightarrow> int \<Rightarrow> int" where
  "localRank_loop hostHashs myRank nRanks p localRank =
     (if int p < nRanks then
        (if int p = myRank then localRank
         else localRank_loop hostHashs myRank nRanks (Suc p)
                (if hostHashs ! p = hostHashs ! nat myRank then localRank + 1 else localRank))
      else localRank)"
  by pat_completeness auto
termination
  by (relation "measure (\<lambda>(hostHashs, myRank, nRanks, p, localRank). nat (nRanks - int p))") auto

subsection \<open>The signal handler\<close>

text \<open>The events of the handler and the status it passes to \<open>exit\<close>.\<close>

definition handler :: "int \<Rightarrow> event list \<times> int" where
  "handler signum = ([Printf (''receive signal '' @ fmt_d signum @ ''. exit.'')], 0)"

subsection \<open>The process: main and the watchdog thread\<close>

text \<open>
  The place main has reached, named by the call it makes next. The last three
  places are the statements behind the \<open>while (true)\<close> of main.
\<close>

datatype pc =
    PC_signal
  | PC_MPI_Init | PC_MPI_Comm_rank | PC_MPI_Comm_size | PC_getHostName | PC_MPI_Allgather
  | PC_ncclGetUniqueId | PC_MPI_Bcast | PC_MPI_Finalize
  | PC_cudaSetDevice | PC_cudaMalloc_sendbuff | PC_cudaMalloc_recvbuff | PC_cudaStreamCreate
  | PC_ncclCommInitRank | PC_ncclAllReduce
  | PC_cudaFree_sendbuff | PC_cudaFree_recvbuff | PC_join

text \<open>
  A process runs, has called \<open>exit\<close> with a status, has been killed by a signal, or
  has run into undefined behaviour.
\<close>

datatype status = Running | Exited int | Killed int | Undefined_behaviour

text \<open>The thread that runs the function \<open>checkNCCLError\<close>.\<close>

datatype thread_state = Not_started | Looping | Returned

record process =
  pc :: pc
  status :: status
  trace :: "event list"
  myRank :: int
  nRanks :: int
  localRank :: int
  hostname :: "cchar list"
  hostHashs :: "uint64_t list"
  nccl_comm :: "NCCLComm option"
  background_watchdog_thread :: thread_state
  sigterm_handled :: bool

text \<open>
  What the environment answers to one library call of main: the returned code and the
  values written through out-parameters (the rank or the size, the buffer as
  \<open>gethostname\<close> leaves it, the hash each rank contributes to the gather, the new
  communicator). A call reads the fields it has.
\<close>

record reply =
  ret :: int
  out_int :: int
  out_hostname :: "cchar list"
  out_hashes :: "nat \<Rightarrow> uint64_t"
  out_comm :: ncclComm_t

definition call :: "event \<Rightarrow> process \<Rightarrow> process" where
  "call ev st = st\<lparr>trace := trace st @ [ev]\<rparr>"

definition after_check :: "check \<Rightarrow> process \<Rightarrow> (process \<Rightarrow> process) \<Rightarrow> process" where
  "after_check c st continue =
     (case c of
        Failed msg code \<Rightarrow> st\<lparr>trace := trace st @ [Printf msg], status := Exited code\<rparr>
      | Passed \<Rightarrow> continue st)"

text \<open>
  One step of main: the call at the current place returns with the reply \<open>r\<close>, the
  statements up to the next call run. The array \<open>hostHashs\<close> is created with
  \<open>nRanks\<close> entries; C leaves them uninitialised, here they start as 0 and are written
  before they are read. With \<open>MPI_IN_PLACE\<close> the gather keeps the entry of this rank
  and fills every other entry \<open>p\<close> with the hash rank \<open>p\<close> contributed. Storing to
  \<open>hostHashs[myRank]\<close> outside the array is undefined behaviour.
\<close>

definition main_step :: "config \<Rightarrow> reply \<Rightarrow> process \<Rightarrow> process" where
  "main_step cfg r st =
     (case pc st of
        PC_signal \<Rightarrow>
          (call (Call ''signal'') st)\<lparr>sigterm_handled := True, pc := PC_MPI_Init\<rparr>
      | PC_MPI_Init \<Rightarrow>
          after_check (MPICHECK cfg 128 (ret r)) (call (Call ''MPI_Init'') st)
            (\<lambda>s. s\<lparr>pc := PC_MPI_Comm_rank\<rparr>)
      | PC_MPI_Comm_rank \<Rightarrow>
          after_check (MPICHECK cfg 129 (ret r)) (call (Call ''MPI_Comm_rank'') st)
            (\<lambda>s. s\<lparr>myRank := out_int r, pc := PC_MPI_Comm_size\<rparr>)
      | PC_MPI_Comm_size \<Rightarrow>
          after_check (MPICHECK cfg 130 (ret r)) (call (Call ''MPI_Comm_size'') st)
            (\<lambda>s. s\<lparr>nRanks := out_int r, hostHashs := replicate (nat (out_int r)) 0,
                    pc := PC_getHostName\<rparr>)
      | PC_getHostName \<Rightarrow>
          (case getHostName (\<lambda>buf len. out_hostname r) (hostname st) 1024 of
             None \<Rightarrow> (call (Call_gethostname (out_hostname r)) st)\<lparr>status := Undefined_behaviour\<rparr>
           | Some name \<Rightarrow>
               (case getHostHash cfg name of
                  None \<Rightarrow> (call (Call_gethostname (out_hostname r)) st)\<lparr>status := Undefined_behaviour\<rparr>
                | Some h \<Rightarrow>
                    if 0 \<le> myRank st \<and> myRank st < nRanks st then
                      (call (Call_gethostname (out_hostname r)) st)
                        \<lparr>hostname := name,
                         hostHashs := (hostHashs st)[nat (myRank st) := h],
                         pc := PC_MPI_Allgather\<rparr>
                    else (call (Call_gethostname (out_hostname r)) st)\<lparr>status := Undefined_behaviour\<rparr>))
      | PC_MPI_Allgather \<Rightarrow>
          after_check (MPICHECK cfg 137 (ret r)) (call (Call ''MPI_Allgather'') st)
            (\<lambda>s. let gathered = map (\<lambda>p. if int p = myRank s then hostHashs s ! p
                                             else out_hashes r p) [0..<length (hostHashs s)]
                  in s\<lparr>hostHashs := gathered,
                       localRank := localRank_loop gathered (myRank s) (nRanks s) 0 (localRank s),
                       pc := (if myRank s = 0 then PC_ncclGetUniqueId else PC_MPI_Bcast)\<rparr>)
      | PC_ncclGetUniqueId \<Rightarrow>
          (call (Call ''ncclGetUniqueId'') st)\<lparr>pc := PC_MPI_Bcast\<rparr>
      | PC_MPI_Bcast \<Rightarrow>
          after_check (MPICHECK cfg 153 (ret r)) (call (Call ''MPI_Bcast'') st)
            (\<lambda>s. s\<lparr>pc := PC_MPI_Finalize\<rparr>)
      | PC_MPI_Finalize \<Rightarrow>
          after_check (MPICHECK cfg 156 (ret r)) (call (Call ''MPI_Finalize'') st)
            (\<lambda>s. s\<lparr>pc := PC_cudaSetDevice\<rparr>)
      | PC_cudaSetDevice \<Rightarrow>
          after_check (CUDACHECK cfg 159 (ret r)) (call (Call_cudaSetDevice (localRank st)) st)
            (\<lambda>s. s\<lparr>pc := PC_cudaMalloc_sendbuff\<rparr>)
      | PC_cudaMalloc_sendbuff \<Rightarrow>
          after_check (CUDACHECK cfg 160 (ret r)) (call (Call ''cudaMalloc'') st)
            (\<lambda>s. s\<lparr>pc := PC_cudaMalloc_recvbuff\<rparr>)
      | PC_cudaMalloc_recvbuff \<Rightarrow>
          after_check (CUDACHECK cfg 161 (ret r)) (call (Call ''cudaMalloc'') st)
            (\<lambda>s. s\<lparr>pc := PC_cudaStreamCreate\<rparr>)
      | PC_cudaStreamCreate \<Rightarrow>
          after_check (CUDACHECK cfg 162 (ret r)) (call (Call ''cudaStreamCreate'') st)
            (\<lambda>s. s\<lparr>pc := PC_ncclCommInitRank\<rparr>)
      | PC_ncclCommInitRank \<Rightarrow>
          after_check (NCCLCHECK cfg 165 (ret r)) (call (Call ''ncclCommInitRank'') st)
            (\<lambda>s. s\<lparr>nccl_comm := Some (NCCLComm_ctor (out_comm r)),
                    background_watchdog_thread := Looping,
                    pc := PC_ncclAllReduce\<rparr>)
      | PC_ncclAllReduce \<Rightarrow>
          (case nccl_comm st of
             None \<Rightarrow> st\<lparr>status := Undefined_behaviour\<rparr>
           | Some h \<Rightarrow>
               after_check (NCCLCHECK cfg 172 (ret r)) (call (Call_ncclAllReduce (GetNCCLComm h)) st)
                 (\<lambda>s. s\<lparr>pc := PC_ncclAllReduce\<rparr>))
      | PC_cudaFree_sendbuff \<Rightarrow>
          after_check (CUDACHECK cfg 178 (ret r)) (call (Call ''cudaFree'') st)
            (\<lambda>s. s\<lparr>pc := PC_cudaFree_recvbuff\<rparr>)
      | PC_cudaFree_recvbuff \<Rightarrow>
          after_check (CUDACHECK cfg 179 (ret r)) (call (Call ''cudaFree'') st)
            (\<lambda>s. s\<lparr>pc := PC_join\<rparr>)
      | PC_join \<Rightarrow>
          (if background_watchdog_thread st = Returned then
             st\<lparr>trace := trace st
                    @ [Printf (''[Rank '' @ fmt_d (myRank st) @ ''] Success '' @ [CHR 0x0A])]
                    @ (case nccl_comm st of None \<Rightarrow> [] | Some h \<Rightarrow> NCCLComm_dtor h),
                status := Exited 0\<rparr>
           else st))"

text \<open>
  One turn of the loop of \<open>checkNCCLError\<close>: a call of the method. The loop is
  \<open>while (true)\<close> with no \<open>break\<close> and no \<open>return\<close>, so the thread stays in it.
\<close>

definition watchdog_step :: "config \<Rightarrow> health_reply \<Rightarrow> process \<Rightarrow> process" where
  "watchdog_step cfg r st =
     (case (background_watchdog_thread st, nccl_comm st) of
        (Looping, Some h) \<Rightarrow>
          (case CheckNCCLError cfg r h of
             (h', evs, ex) \<Rightarrow>
               st\<lparr>nccl_comm := Some h',
                  trace := trace st @ evs,
                  status := (case ex of Some code \<Rightarrow> Exited code | None \<Rightarrow> Running),
                  background_watchdog_thread := Looping\<rparr>)
      | _ \<Rightarrow> st)"

text \<open>
  What can happen to the process next: SIGTERM arrives, main makes its next call, or the
  watchdog thread makes its next check. A process that has ended does nothing more.
  SIGTERM runs \<open>handler\<close> once \<open>signal(SIGTERM, handler)\<close> has been executed; before,
  it has its default action: the process is killed by the signal and prints nothing.
\<close>

datatype input = Sigterm | Main_call reply | Watchdog_call health_reply

definition step :: "config \<Rightarrow> input \<Rightarrow> process \<Rightarrow> process" where
  "step cfg inp st =
     (if status st \<noteq> Running then st
      else case inp of
        Sigterm \<Rightarrow>
          (if sigterm_handled st then
             (case handler SIGTERM of
                (evs, code) \<Rightarrow> st\<lparr>trace := trace st @ evs, status := Exited code\<rparr>)
           else st\<lparr>status := Killed SIGTERM\<rparr>)
      | Main_call r \<Rightarrow> main_step cfg r st
      | Watchdog_call r \<Rightarrow> watchdog_step cfg r st)"

definition run :: "config \<Rightarrow> input list \<Rightarrow> process \<Rightarrow> process" where
  "run cfg inputs st = fold (step cfg) inputs st"

text \<open>
  The process on entry to main: the first statement, \<open>signal(SIGTERM, handler)\<close>
  (line 125), has not been executed yet, so SIGTERM still has its default action.
  \<open>myRank\<close>, \<open>nRanks\<close> and the buffer \<open>hostname\<close> are uninitialised in C and written
  before they are read; \<open>localRank\<close> starts as 0.
\<close>

definition main_entry :: process where
  "main_entry =
     \<lparr> pc = PC_signal, status = Running, trace = [],
       myRank = 0, nRanks = 0, localRank = 0,
       hostname = replicate 1024 0, hostHashs = [],
       nccl_comm = None, background_watchdog_thread = Not_started,
       sigterm_handled = False \<rparr>"

subsection \<open>Sequences of method calls on one object\<close>

datatype method_call = Call_GetNCCLComm | Call_CheckNCCLError health_reply

text \<open>
  The calls are made one after the other on the same object, until one of them ends the
  process. The result is the object at the end, the values returned by \<open>GetNCCLComm\<close>,
  the events, and the exit status if the process ended.
\<close>

fun method_calls ::
  "config \<Rightarrow> method_call list \<Rightarrow> NCCLComm \<Rightarrow> NCCLComm \<times> ncclComm_t list \<times> event list \<times> int option" where
  "method_calls cfg [] h = (h, [], [], None)"
| "method_calls cfg (Call_GetNCCLComm # rest) h =
     (case method_calls cfg rest h of
        (h', got, evs, ex) \<Rightarrow> (h', GetNCCLComm h # got, evs, ex))"
| "method_calls cfg (Call_CheckNCCLError r # rest) h =
     (case CheckNCCLError cfg r h of
        (h1, evs1, Some code) \<Rightarrow> (h1, [], evs1, Some code)
      | (h1, evs1, None) \<Rightarrow>
          (case method_calls cfg rest h1 of
             (h', got, evs, ex) \<Rightarrow> (h', got, evs1 @ evs, ex)))"

text \<open>The communicators on which \<open>ncclCommAbort\<close> was called, in order.\<close>

fun abort_calls :: "event list \<Rightarrow> ncclComm_t list" where
  "abort_calls [] = []"
| "abort_calls (Call_ncclCommAbort c # evs) = c # abort_calls evs"
| "abort_calls (ev # evs) = abort_calls evs"

text \<open>The communicators that \<open>ncclCommGetAsyncError\<close> was asked about, in order.\<close>

fun query_calls :: "event list \<Rightarrow> ncclComm_t list" where
  "query_calls [] = []"
| "query_calls (Call_ncclCommGetAsyncError c # evs) = c # query_calls evs"
| "query_calls (ev # evs) = query_calls evs"

text \<open>
  The health checks of a sequence that take place: each one up to and including the
  first whose query fails or whose abort fails, since that one ends the process.
\<close>

fun executed_checks :: "health_reply list \<Rightarrow> health_reply list" where
  "executed_checks [] = []"
| "executed_checks (r # rs) =
     (if query_ret r \<noteq> ncclSuccess \<or> (async_result r \<noteq> ncclSuccess \<and> abort_ret r \<noteq> ncclSuccess)
      then [r]
      else r # executed_checks rs)"

text \<open>
  The class stores no fault state. The state the specification speaks of is read off the
  events: the handle is \<open>Aborted\<close> once \<open>ncclCommAbort\<close> has been called, \<open>Healthy\<close>
  before.
\<close>

datatype FaultState = Healthy | Aborted

definition FaultState_of :: "event list \<Rightarrow> FaultState" where
  "FaultState_of evs = (if abort_calls evs = [] then Healthy else Aborted)"

text \<open>A configuration and replies for concrete runs.\<close>

definition example_config :: config where
  "example_config =
     \<lparr> file_name = ''test.cc'',
       cudaGetErrorString = (\<lambda>e. ''unspecified launch failure''),
       ncclGetErrorString = (\<lambda>r. ''unhandled system error''),
       char_is_signed = True \<rparr>"

definition reply_healthy :: health_reply where
  "reply_healthy = \<lparr> query_ret = 0, async_result = 0, abort_ret = 0, abort_ms = 0 \<rparr>"

definition reply_fault :: health_reply where
  "reply_fault = \<lparr> query_ret = 0, async_result = 2, abort_ret = 0, abort_ms = 12 \<rparr>"

definition reply_query_fails :: health_reply where
  "reply_query_fails = \<lparr> query_ret = 4, async_result = 0, abort_ret = 0, abort_ms = 0 \<rparr>"

definition reply_abort_fails :: health_reply where
  "reply_abort_fails = \<lparr> query_ret = 0, async_result = 2, abort_ret = 3, abort_ms = 5 \<rparr>"

text \<open>
  A run of main on rank 2 of 4, on the host \<open>gpu-node-3.cluster.local\<close>, where rank 0
  is on another host and ranks 1 and 3 are on the same host: every call succeeds.
\<close>

definition example_hostname :: "cchar list" where
  "example_hostname = map of_char ''gpu-node-3.cluster.local'' @ replicate 1000 0"

definition reply_ok :: reply where
  "reply_ok = \<lparr> ret = 0, out_int = 0, out_hostname = [], out_hashes = (\<lambda>p. 0), out_comm = 0 \<rparr>"

definition example_bootstrap :: "input list" where
  "example_bootstrap =
     [Main_call reply_ok, Main_call reply_ok,
      Main_call (reply_ok\<lparr>out_int := 2\<rparr>),
      Main_call (reply_ok\<lparr>out_int := 4\<rparr>),
      Main_call (reply_ok\<lparr>out_hostname := example_hostname\<rparr>),
      Main_call (reply_ok\<lparr>out_hashes := (\<lambda>p. if p = 0 then 1 else 8242930826616061236)\<rparr>),
      Main_call reply_ok, Main_call reply_ok, Main_call reply_ok, Main_call reply_ok,
      Main_call reply_ok, Main_call reply_ok,
      Main_call (reply_ok\<lparr>out_comm := 7\<rparr>)]"

subsection \<open>The checked calls of main\<close>

text \<open>
  The calls that main wraps in a check macro, read off the source: the macro and the
  line of the call (the call of \<open>ncclAllReduce\<close> spans lines 172 and 173; the macro
  name stands on 172). \<open>signal\<close>, \<open>gethostname\<close> and \<open>ncclGetUniqueId\<close> are called unchecked,
  and \<open>join\<close> returns nothing.
\<close>

datatype library = MPI | CUDA | NCCL


text \<open>
  The line a failing check is expected to print: the file, the line and the error, as
  a number for MPI and as the library's text for CUDA and NCCL.
\<close>

definition diagnostic :: "config \<Rightarrow> library \<Rightarrow> nat \<Rightarrow> int \<Rightarrow> string" where
  "diagnostic cfg lib ln e =
     (case lib of
        MPI \<Rightarrow> ''Failed: MPI error '' @ file_name cfg @ '':'' @ dec_nat ln
                 @ '' '' @ [CHR 0x27] @ fmt_d e @ [CHR 0x27, CHR 0x0A]
      | CUDA \<Rightarrow> ''Failed: Cuda error '' @ file_name cfg @ '':'' @ dec_nat ln
                 @ '' '' @ [CHR 0x27] @ cudaGetErrorString cfg e @ [CHR 0x27, CHR 0x0A]
      | NCCL \<Rightarrow> ''Failed, NCCL error '' @ file_name cfg @ '':'' @ dec_nat ln
                 @ '' '' @ [CHR 0x27] @ ncclGetErrorString cfg e @ [CHR 0x27, CHR 0x0A])"


declare dec_nat.simps [simp del]

subsection \<open>What holds in every state the process can reach\<close>

text \<open>
  Main is before or inside its loop; the object and the watchdog thread exist exactly
  when main is inside the loop; the thread has not returned; an exit status is 0 or 1;
  SIGTERM is handled exactly when main is past its first statement.
\<close>

definition control_inv :: "process \<Rightarrow> bool" where
  "control_inv st =
     (pc st \<noteq> PC_cudaFree_sendbuff \<and> pc st \<noteq> PC_cudaFree_recvbuff \<and> pc st \<noteq> PC_join
      \<and> (if pc st = PC_ncclAllReduce
          then nccl_comm st \<noteq> None \<and> background_watchdog_thread st = Looping
          else nccl_comm st = None \<and> background_watchdog_thread st = Not_started)
      \<and> (case status st of Exited code \<Rightarrow> code = 0 \<or> code = 1 | _ \<Rightarrow> True)
      \<and> sigterm_handled st = (pc st \<noteq> PC_signal))"

text \<open>The communicators on which \<open>ncclAllReduce\<close> was called, in order.\<close>

fun allreduce_calls :: "event list \<Rightarrow> ncclComm_t list" where
  "allreduce_calls [] = []"
| "allreduce_calls (Call_ncclAllReduce c # evs) = c # allreduce_calls evs"
| "allreduce_calls (ev # evs) = allreduce_calls evs"

text \<open>The input at which a running process stops running, if there is one.\<close>

fun ending_input :: "config \<Rightarrow> input list \<Rightarrow> process \<Rightarrow> input option" where
  "ending_input cfg [] st = None"
| "ending_input cfg (x # xs) st =
     (if status st \<noteq> Running then None
      else if status (step cfg x st) \<noteq> Running then Some x
      else ending_input cfg xs (step cfg x st))"

subsection \<open>What localRank and the host hash are expected to be\<close>

text \<open>
  The hash named in the comment of \<open>getHostHash\<close> (DJB2a: start at 5381, then
  \<open>result * 33 ^ char\<close> for each character), the host name cut at its first dot or at
  its terminator, and the number of ranks below a rank whose hash equals the hash of
  that rank.
\<close>

definition djb2a :: "bool \<Rightarrow> cchar list \<Rightarrow> uint64_t" where
  "djb2a sg name = fold (\<lambda>ch result. (result * 33) XOR char_to_uint64 sg ch) name 5381"

definition truncate_at_dot :: "cchar list \<Rightarrow> cchar list" where
  "truncate_at_dot buf = takeWhile (\<lambda>ch. ch \<noteq> 0 \<and> ch \<noteq> 46) buf"

definition same_host_before :: "uint64_t list \<Rightarrow> int \<Rightarrow> int" where
  "same_host_before hashes rank =
     int (length (filter (\<lambda>p. hashes ! p = hashes ! nat rank) [0..<nat rank]))"

declare getHostName_loop.simps [simp del]
declare localRank_loop.simps [simp del]

subsection \<open>What holds of the data in every state the process can reach\<close>

text \<open>The places of main in the order of the source.\<close>

fun pc_index :: "pc \<Rightarrow> nat" where
  "pc_index PC_signal = 0"
| "pc_index PC_MPI_Init = 1"
| "pc_index PC_MPI_Comm_rank = 2"
| "pc_index PC_MPI_Comm_size = 3"
| "pc_index PC_getHostName = 4"
| "pc_index PC_MPI_Allgather = 5"
| "pc_index PC_ncclGetUniqueId = 6"
| "pc_index PC_MPI_Bcast = 7"
| "pc_index PC_MPI_Finalize = 8"
| "pc_index PC_cudaSetDevice = 9"
| "pc_index PC_cudaMalloc_sendbuff = 10"
| "pc_index PC_cudaMalloc_recvbuff = 11"
| "pc_index PC_cudaStreamCreate = 12"
| "pc_index PC_ncclCommInitRank = 13"
| "pc_index PC_ncclAllReduce = 14"
| "pc_index PC_cudaFree_sendbuff = 15"
| "pc_index PC_cudaFree_recvbuff = 16"
| "pc_index PC_join = 17"

text \<open>
  Up to the gather \<open>localRank\<close> is 0; from the store of the own hash on, the rank is
  inside the array and the own entry is the hash of the buffer \<open>hostname\<close>; after the
  gather \<open>localRank\<close> is the count of equal hashes below the own rank.
\<close>

definition rank_inv :: "config \<Rightarrow> process \<Rightarrow> bool" where
  "rank_inv cfg st =
     ((pc_index (pc st) \<le> 5 \<longrightarrow> localRank st = 0)
      \<and> (pc_index (pc st) = 4 \<longrightarrow> length (hostHashs st) = nat (nRanks st))
      \<and> (5 \<le> pc_index (pc st) \<longrightarrow>
            0 \<le> myRank st \<and> myRank st < nRanks st
          \<and> length (hostHashs st) = nat (nRanks st)
          \<and> getHostHash cfg (hostname st) = Some (hostHashs st ! nat (myRank st)))
      \<and> (6 \<le> pc_index (pc st) \<longrightarrow>
            localRank st = same_host_before (hostHashs st) (myRank st)))"

text \<open>
  \<open>gethostname\<close> is called at most once, and once main is past \<open>getHostName\<close> the
  buffer \<open>hostname\<close> is what \<open>getHostName\<close> made of the buffer that call left.
\<close>

definition hostname_inv :: "process \<Rightarrow> bool" where
  "hostname_inv st =
     ((\<forall>buf. Call_gethostname buf \<in> set (trace st) \<longrightarrow>
           4 \<le> pc_index (pc st)
         \<and> (pc_index (pc st) = 4 \<longrightarrow> status st \<noteq> Running)
         \<and> (5 \<le> pc_index (pc st) \<longrightarrow> getHostName_loop buf 1024 0 = Some (hostname st)))
      \<and> (5 \<le> pc_index (pc st) \<longrightarrow> (\<exists>buf. Call_gethostname buf \<in> set (trace st))))"

text \<open>\<open>cudaSetDevice\<close> is called only at its place, with the value of \<open>localRank\<close>.\<close>

definition device_inv :: "process \<Rightarrow> bool" where
  "device_inv st =
     (\<forall>d. Call_cudaSetDevice d \<in> set (trace st) \<longrightarrow>
        9 \<le> pc_index (pc st) \<and> d = localRank st)"

section \<open>The check macros\<close>

lemma MPICHECK_fails:
  "e \<noteq> MPI_SUCCESS \<Longrightarrow> MPICHECK cfg ln e = Failed (diagnostic cfg MPI ln e) 1"
  by (simp add: MPICHECK_def diagnostic_def EXIT_FAILURE_def)


lemma NCCLCHECK_fails:
  "e \<noteq> ncclSuccess \<Longrightarrow> NCCLCHECK cfg ln e = Failed (diagnostic cfg NCCL ln e) 1"
  by (simp add: NCCLCHECK_def diagnostic_def EXIT_FAILURE_def)

lemma after_check_Failed:
  "after_check (Failed msg code) st continue =
     st\<lparr>trace := trace st @ [Printf msg], status := Exited code\<rparr>"
  by (simp add: after_check_def)

lemma after_check_Passed: "after_check Passed st continue = continue st"
  by (simp add: after_check_def)

section \<open>Properties of class NCCLComm\<close>

subsection \<open>One call of CheckNCCLError\<close>

lemma CheckNCCLError_object: "fst (CheckNCCLError cfg r h) = h"
  by (simp add: CheckNCCLError_def Let_def split: check.split)

lemma CheckNCCLError_healthy:
  "query_ret r = ncclSuccess \<Longrightarrow> async_result r = ncclSuccess \<Longrightarrow>
   CheckNCCLError cfg r h = (h, [Call_ncclCommGetAsyncError (nccl_comm_member h)], None)"
  by (simp add: CheckNCCLError_def NCCLCHECK_def)

lemma CheckNCCLError_fault:
  "query_ret r = ncclSuccess \<Longrightarrow> async_result r \<noteq> ncclSuccess \<Longrightarrow> abort_ret r = ncclSuccess \<Longrightarrow>
   CheckNCCLError cfg r h =
     (h, [Call_ncclCommGetAsyncError (nccl_comm_member h),
          Printf (''ncclCommGetAsyncError result: ''
                    @ ncclGetErrorString cfg (async_result r) @ [CHR 0x0A]),
          Printf (''[DEBUG] ncclComAbort starts!'' @ [CHR 0x0A]),
          Call_ncclCommAbort (nccl_comm_member h),
          Printf (''[DEBUG] ncclComAbort finishes! Time elapsed = ''
                    @ fmt_2f (abort_ms r) @ '' ms.'' @ [CHR 0x0A])],
      None)"
  by (simp add: CheckNCCLError_def NCCLCHECK_def)

lemma CheckNCCLError_query_fails:
  "query_ret r \<noteq> ncclSuccess \<Longrightarrow>
   CheckNCCLError cfg r h =
     (h, [Call_ncclCommGetAsyncError (nccl_comm_member h),
          Printf (diagnostic cfg NCCL 66 (query_ret r))],
      Some 1)"
  by (simp add: CheckNCCLError_def NCCLCHECK_fails)

lemma CheckNCCLError_abort_fails:
  "query_ret r = ncclSuccess \<Longrightarrow> async_result r \<noteq> ncclSuccess \<Longrightarrow> abort_ret r \<noteq> ncclSuccess \<Longrightarrow>
   CheckNCCLError cfg r h =
     (h, [Call_ncclCommGetAsyncError (nccl_comm_member h),
          Printf (''ncclCommGetAsyncError result: ''
                    @ ncclGetErrorString cfg (async_result r) @ [CHR 0x0A]),
          Printf (''[DEBUG] ncclComAbort starts!'' @ [CHR 0x0A]),
          Call_ncclCommAbort (nccl_comm_member h),
          Printf (diagnostic cfg NCCL 71 (abort_ret r))],
      Some 1)"
  by (simp add: CheckNCCLError_def NCCLCHECK_fails NCCLCHECK_def [of cfg 66])

lemma abort_calls_append: "abort_calls (xs @ ys) = abort_calls xs @ abort_calls ys"
  by (induction xs rule: abort_calls.induct) simp_all

lemma abort_calls_replicate_query:
  "abort_calls (replicate n (Call_ncclCommGetAsyncError c)) = []"
  by (induction n) simp_all

lemma example_values:
  "query_ret reply_healthy = ncclSuccess" "async_result reply_healthy = ncclSuccess"
  "query_ret reply_fault = ncclSuccess" "async_result reply_fault \<noteq> ncclSuccess"
  "abort_ret reply_fault = ncclSuccess"
  "query_ret reply_query_fails \<noteq> ncclSuccess"
  "query_ret reply_abort_fails = ncclSuccess" "async_result reply_abort_fails \<noteq> ncclSuccess"
  "abort_ret reply_abort_fails \<noteq> ncclSuccess"
  by (simp_all add: reply_healthy_def reply_fault_def reply_query_fails_def
        reply_abort_fails_def ncclSuccess_def)

subsection \<open>Sequences of calls\<close>

lemma method_calls_object:
  "method_calls cfg calls h = (h', got, evs, ex) \<Longrightarrow>
   h' = h \<and> (\<forall>c \<in> set got. c = nccl_comm_member h)"
proof (induction cfg calls h arbitrary: h' got evs ex rule: method_calls.induct)
  case (1 cfg h)
  then show ?case by simp
next
  case (2 cfg rest h)
  obtain h2 got2 evs2 ex2 where rest: "method_calls cfg rest h = (h2, got2, evs2, ex2)"
    by (metis prod_cases4)
  from "2.IH" [OF rest] have "h2 = h" "\<forall>c \<in> set got2. c = nccl_comm_member h"
    by simp_all
  moreover from "2.prems" rest have "h' = h2" "got = GetNCCLComm h # got2"
    by simp_all
  ultimately show ?case
    by (simp add: GetNCCLComm_def)
next
  case (3 cfg r rest h)
  obtain evs1 ex1 where one: "CheckNCCLError cfg r h = (h, evs1, ex1)"
    by (metis CheckNCCLError_object fst_conv prod_cases3)
  show ?case
  proof (cases ex1)
    case None
    obtain h2 got2 evs2 ex2 where rest: "method_calls cfg rest h = (h2, got2, evs2, ex2)"
      by (metis prod_cases4)
    from "3.IH" [OF one [symmetric] refl None rest]
    have "h2 = h" "\<forall>c \<in> set got2. c = nccl_comm_member h"
      by simp_all
    moreover from "3.prems" one None rest have "h' = h2" "got = got2"
      by simp_all
    ultimately show ?thesis by simp
  next
    case (Some code)
    with "3.prems" one show ?thesis by simp
  qed
qed

lemma method_calls_checks_healthy:
  assumes "\<forall>r \<in> set rs. query_ret r = ncclSuccess \<and> async_result r = ncclSuccess"
  shows "method_calls cfg (map Call_CheckNCCLError rs) h =
           (h, [], replicate (length rs) (Call_ncclCommGetAsyncError (nccl_comm_member h)), None)"
  using assms
proof (induction rs)
  case Nil
  show ?case by simp
next
  case (Cons r rs)
  from Cons.prems have a: "query_ret r = ncclSuccess" "async_result r = ncclSuccess"
    by simp_all
  from Cons.prems
  have "\<forall>r \<in> set rs. query_ret r = ncclSuccess \<and> async_result r = ncclSuccess"
    by simp
  then have b: "method_calls cfg (map Call_CheckNCCLError rs) h =
      (h, [], replicate (length rs) (Call_ncclCommGetAsyncError (nccl_comm_member h)), None)"
    by (rule Cons.IH)
  show ?case
    by (simp add: CheckNCCLError_healthy [OF a] b)
qed

lemma executed_checks_append:
  "\<exists>zs. executed_checks (rs @ later) = executed_checks rs @ zs"
  by (induction rs) simp_all

lemma method_calls_checks_counts:
  "fst (method_calls cfg (map Call_CheckNCCLError rs) h) = h
   \<and> abort_calls (fst (snd (snd (method_calls cfg (map Call_CheckNCCLError rs) h)))) =
       replicate (length (filter (\<lambda>r. query_ret r = ncclSuccess \<and> async_result r \<noteq> ncclSuccess)
                            (executed_checks rs))) (nccl_comm_member h)
   \<and> query_calls (fst (snd (snd (method_calls cfg (map Call_CheckNCCLError rs) h)))) =
       replicate (length (executed_checks rs)) (nccl_comm_member h)"
proof (induction rs)
  case Nil
  show ?case by simp
next
  case (Cons r rs)
  obtain h2 got2 evs2 ex2 where
    rest: "method_calls cfg (map Call_CheckNCCLError rs) h = (h2, got2, evs2, ex2)"
    by (metis prod_cases4)
  from Cons.IH rest have b: "h2 = h"
    "abort_calls evs2 =
       replicate (length (filter (\<lambda>r. query_ret r = ncclSuccess \<and> async_result r \<noteq> ncclSuccess)
                            (executed_checks rs))) (nccl_comm_member h)"
    "query_calls evs2 = replicate (length (executed_checks rs)) (nccl_comm_member h)"
    by simp_all
  show ?case
  proof (cases "query_ret r = ncclSuccess")
    case False
    then show ?thesis
      by (simp add: CheckNCCLError_query_fails)
  next
    case q: True
    show ?thesis
    proof (cases "async_result r = ncclSuccess")
      case True
      show ?thesis
        by (simp add: CheckNCCLError_healthy [OF q True] rest b q True)
    next
      case a: False
      show ?thesis
      proof (cases "abort_ret r = ncclSuccess")
        case True
        show ?thesis
          by (simp add: CheckNCCLError_fault [OF q a True] rest b q a True)
      next
        case False
        show ?thesis
          by (simp add: CheckNCCLError_abort_fails [OF q a False] q a False)
      qed
    qed
  qed
qed

subsection \<open>Claims about the handle\<close>

text \<open>
  C3. In every sequence of health checks in which the query succeeds and reports the Ok
  code each time, the object is unchanged, the process goes on, the only events are the
  queries themselves, \<open>ncclCommAbort\<close> is never called, and the fault state read off the
  events is \<open>Healthy\<close>.
\<close>

theorem C3_ok_checks_keep_handle_healthy:
  assumes "\<forall>r \<in> set rs. query_ret r = ncclSuccess \<and> async_result r = ncclSuccess"
  shows "method_calls cfg (map Call_CheckNCCLError rs) h =
           (h, [], replicate (length rs) (Call_ncclCommGetAsyncError (nccl_comm_member h)), None)
       \<and> abort_calls (fst (snd (snd (method_calls cfg (map Call_CheckNCCLError rs) h)))) = []
       \<and> FaultState_of (fst (snd (snd (method_calls cfg (map Call_CheckNCCLError rs) h)))) = Healthy"
  by (simp add: method_calls_checks_healthy [OF assms] abort_calls_replicate_query FaultState_of_def)

theorem C3_ok_checks_witness:
  "query_ret reply_healthy = ncclSuccess \<and> async_result reply_healthy = ncclSuccess
   \<and> method_calls example_config
         [Call_CheckNCCLError reply_healthy, Call_CheckNCCLError reply_healthy,
          Call_CheckNCCLError reply_healthy] (NCCLComm_ctor 7) =
       (NCCLComm_ctor 7, [],
        [Call_ncclCommGetAsyncError 7, Call_ncclCommGetAsyncError 7, Call_ncclCommGetAsyncError 7],
        None)
   \<and> FaultState_of (fst (snd (snd (method_calls example_config
         [Call_CheckNCCLError reply_healthy, Call_CheckNCCLError reply_healthy,
          Call_CheckNCCLError reply_healthy] (NCCLComm_ctor 7))))) = Healthy"
proof -
  have h: "\<forall>r \<in> set [reply_healthy, reply_healthy, reply_healthy].
             query_ret r = ncclSuccess \<and> async_result r = ncclSuccess"
    by (simp add: example_values)
  have n: "replicate (length [reply_healthy, reply_healthy, reply_healthy])
             (Call_ncclCommGetAsyncError (nccl_comm_member (NCCLComm_ctor 7))) =
           [Call_ncclCommGetAsyncError 7, Call_ncclCommGetAsyncError 7,
            Call_ncclCommGetAsyncError 7]"
    by (simp add: NCCLComm_ctor_def numeral_3_eq_3)
  from C3_ok_checks_keep_handle_healthy [OF h, of example_config "NCCLComm_ctor 7"] n
  show ?thesis by (simp add: CheckNCCLError_healthy example_values)
qed

text \<open>
  C1, as stated, fails: the object keeps no record of an abort. Two health checks that
  both see a fault call \<open>ncclCommAbort\<close> twice on the same communicator.
\<close>

theorem C1_second_fault_aborts_again:
  "abort_calls (fst (snd (snd (method_calls example_config
      [Call_CheckNCCLError reply_fault, Call_CheckNCCLError reply_fault] (NCCLComm_ctor 7))))) =
   [7, 7]"
  by (simp add: CheckNCCLError_fault example_values NCCLComm_ctor_def)

text \<open>
  C1, amended. In every sequence of health checks, whatever the calls return: the object
  is unchanged, each check that takes place queries the stored communicator once, and
  \<open>ncclCommAbort\<close> is called on it exactly once by each of these checks whose query
  succeeded and reported a code other than Ok (by the first such check, and again by
  each later one, also when the abort itself then fails), and by no other check. Once
  the fault state read off the events of a sequence is \<open>Aborted\<close>, it is \<open>Aborted\<close>
  for every longer sequence.
\<close>

theorem C1_abort_once_per_faulty_check:
  "fst (method_calls cfg (map Call_CheckNCCLError rs) h) = h
   \<and> abort_calls (fst (snd (snd (method_calls cfg (map Call_CheckNCCLError rs) h)))) =
       replicate (length (filter (\<lambda>r. query_ret r = ncclSuccess \<and> async_result r \<noteq> ncclSuccess)
                            (executed_checks rs))) (nccl_comm_member h)
   \<and> query_calls (fst (snd (snd (method_calls cfg (map Call_CheckNCCLError rs) h)))) =
       replicate (length (executed_checks rs)) (nccl_comm_member h)
   \<and> (FaultState_of (fst (snd (snd (method_calls cfg (map Call_CheckNCCLError rs) h)))) = Aborted
        \<longrightarrow> FaultState_of (fst (snd (snd
              (method_calls cfg (map Call_CheckNCCLError (rs @ later)) h)))) = Aborted)"
proof -
  obtain zs where zs: "executed_checks (rs @ later) = executed_checks rs @ zs"
    using executed_checks_append by blast
  have "FaultState_of (fst (snd (snd
          (method_calls cfg (map Call_CheckNCCLError (rs @ later)) h)))) = Aborted"
    if "FaultState_of (fst (snd (snd (method_calls cfg (map Call_CheckNCCLError rs) h)))) = Aborted"
  proof -
    from that have "filter (\<lambda>r. query_ret r = ncclSuccess \<and> async_result r \<noteq> ncclSuccess)
        (executed_checks rs) \<noteq> []"
      using method_calls_checks_counts [of cfg rs h]
      by (auto simp: FaultState_of_def split: if_splits)
    then have "filter (\<lambda>r. query_ret r = ncclSuccess \<and> async_result r \<noteq> ncclSuccess)
        (executed_checks (rs @ later)) \<noteq> []"
      by (simp add: zs)
    then show ?thesis
      using method_calls_checks_counts [of cfg "rs @ later" h]
      by (simp add: FaultState_of_def)
  qed
  with method_calls_checks_counts [of cfg rs h] show ?thesis
    by blast
qed

theorem C1_abort_once_per_faulty_check_witness:
  "executed_checks
     [reply_healthy, reply_fault, reply_abort_fails, reply_fault] =
     [reply_healthy, reply_fault, reply_abort_fails]
   \<and> abort_calls (fst (snd (snd (method_calls example_config
         (map Call_CheckNCCLError [reply_healthy, reply_fault, reply_abort_fails, reply_fault])
         (NCCLComm_ctor 7))))) = [7, 7]
   \<and> query_calls (fst (snd (snd (method_calls example_config
         (map Call_CheckNCCLError [reply_healthy, reply_fault, reply_abort_fails, reply_fault])
         (NCCLComm_ctor 7))))) = [7, 7, 7]
   \<and> FaultState_of (fst (snd (snd (method_calls example_config
         (map Call_CheckNCCLError [reply_healthy, reply_fault, reply_abort_fails, reply_fault])
         (NCCLComm_ctor 7))))) = Aborted
   \<and> FaultState_of (fst (snd (snd (method_calls example_config
         (map Call_CheckNCCLError
            ([reply_healthy, reply_fault, reply_abort_fails, reply_fault] @ [reply_healthy]))
         (NCCLComm_ctor 7))))) = Aborted"
proof -
  let ?rs = "[reply_healthy, reply_fault, reply_abort_fails, reply_fault]"
  have e: "executed_checks ?rs = [reply_healthy, reply_fault, reply_abort_fails]"
    by (simp add: example_values)
  have n: "replicate (length (filter (\<lambda>r. query_ret r = ncclSuccess \<and> async_result r \<noteq> ncclSuccess)
                (executed_checks ?rs))) (nccl_comm_member (NCCLComm_ctor 7)) = [7, 7]"
    "replicate (length (executed_checks ?rs)) (nccl_comm_member (NCCLComm_ctor 7)) = [7, 7, 7]"
    by (simp_all add: e example_values NCCLComm_ctor_def numeral_2_eq_2 numeral_3_eq_3)
  note t = C1_abort_once_per_faulty_check [of example_config ?rs "NCCLComm_ctor 7"
      "[reply_healthy]"]
  from t n have a: "abort_calls (fst (snd (snd (method_calls example_config
      (map Call_CheckNCCLError ?rs) (NCCLComm_ctor 7))))) = [7, 7]"
    and q: "query_calls (fst (snd (snd (method_calls example_config
      (map Call_CheckNCCLError ?rs) (NCCLComm_ctor 7))))) = [7, 7, 7]"
    by simp_all
  from a have f: "FaultState_of (fst (snd (snd (method_calls example_config
      (map Call_CheckNCCLError ?rs) (NCCLComm_ctor 7))))) = Aborted"
    by (simp add: FaultState_of_def)
  with t have "FaultState_of (fst (snd (snd (method_calls example_config
      (map Call_CheckNCCLError (?rs @ [reply_healthy])) (NCCLComm_ctor 7))))) = Aborted"
    by blast
  with e a q f show ?thesis
    by blast
qed

text \<open>
  C4. Whatever sequence of calls is made on an object built from a communicator \<open>c\<close>
  (any number of health checks, aborting or not, and any number of \<open>GetNCCLComm\<close>), the
  object at the end is the one that was built, every \<open>GetNCCLComm\<close> returned \<open>c\<close>, and
  \<open>GetNCCLComm\<close> still returns \<open>c\<close>.
\<close>

theorem C4_GetNCCLComm_returns_constructed_comm:
  assumes "method_calls cfg calls (NCCLComm_ctor c) = (h', got, evs, ex)"
  shows "h' = NCCLComm_ctor c \<and> GetNCCLComm h' = c \<and> (\<forall>x \<in> set got. x = c)"
  using method_calls_object [OF assms]
  by (simp add: NCCLComm_ctor_def GetNCCLComm_def)

theorem C4_GetNCCLComm_witness:
  "method_calls example_config
      [Call_GetNCCLComm, Call_CheckNCCLError reply_fault, Call_GetNCCLComm,
       Call_CheckNCCLError reply_healthy, Call_CheckNCCLError reply_fault, Call_GetNCCLComm]
      (NCCLComm_ctor 7) =
     (NCCLComm_ctor 7, [7, 7, 7],
      fst (snd (snd (method_calls example_config
         [Call_CheckNCCLError reply_fault, Call_CheckNCCLError reply_healthy,
          Call_CheckNCCLError reply_fault] (NCCLComm_ctor 7)))),
      None)
   \<and> GetNCCLComm (NCCLComm_ctor 7) = 7"
proof -
  have run: "method_calls example_config
      [Call_GetNCCLComm, Call_CheckNCCLError reply_fault, Call_GetNCCLComm,
       Call_CheckNCCLError reply_healthy, Call_CheckNCCLError reply_fault, Call_GetNCCLComm]
      (NCCLComm_ctor 7) =
     (NCCLComm_ctor 7, [7, 7, 7],
      fst (snd (snd (method_calls example_config
         [Call_CheckNCCLError reply_fault, Call_CheckNCCLError reply_healthy,
          Call_CheckNCCLError reply_fault] (NCCLComm_ctor 7)))),
      None)"
    by (simp add: CheckNCCLError_healthy CheckNCCLError_fault example_values
          GetNCCLComm_def NCCLComm_ctor_def)
  from C4_GetNCCLComm_returns_constructed_comm [OF run] run
  show ?thesis by simp
qed

subsection \<open>A checked call of main that fails\<close>


section \<open>The process\<close>

subsection \<open>Steps\<close>

lemma step_not_running: "status st \<noteq> Running \<Longrightarrow> step cfg inp st = st"
  by (simp add: step_def)

lemma run_not_running: "status st \<noteq> Running \<Longrightarrow> run cfg inputs st = st"
  by (induction inputs) (simp_all add: run_def step_not_running)

lemma run_Nil: "run cfg [] st = st"
  by (simp add: run_def)

lemma run_Cons: "run cfg (x # xs) st = run cfg xs (step cfg x st)"
  by (simp add: run_def)

lemma run_append: "run cfg (xs @ ys) st = run cfg ys (run cfg xs st)"
  by (simp add: run_def)

lemma step_Main_call: "status st = Running \<Longrightarrow> step cfg (Main_call r) st = main_step cfg r st"
  by (simp add: step_def)

lemma step_Watchdog_call:
  "status st = Running \<Longrightarrow> step cfg (Watchdog_call r) st = watchdog_step cfg r st"
  by (simp add: step_def)

lemma step_Sigterm:
  "status st = Running \<Longrightarrow> sigterm_handled st \<Longrightarrow>
   step cfg Sigterm st =
     st\<lparr>trace := trace st @ [Printf ''receive signal 15. exit.''], status := Exited 0\<rparr>"
  by (simp add: step_def handler_def SIGTERM_def fmt_d_def dec_nat.simps digit_char_def)

lemma step_Sigterm_default:
  "status st = Running \<Longrightarrow> \<not> sigterm_handled st \<Longrightarrow>
   step cfg Sigterm st = st\<lparr>status := Killed 15\<rparr>"
  by (simp add: step_def SIGTERM_def)

lemma CheckNCCLError_status:
  "snd (snd (CheckNCCLError cfg r h)) = None \<or> snd (snd (CheckNCCLError cfg r h)) = Some 1"
  by (simp add: CheckNCCLError_def NCCLCHECK_def EXIT_FAILURE_def Let_def)

subsection \<open>The invariant\<close>

lemma control_inv_main_entry: "control_inv main_entry"
  by (simp add: control_inv_def main_entry_def)

lemma control_inv_main_step:
  assumes "control_inv st"
  shows "control_inv (main_step cfg r st)"
proof (cases "pc st")
  case PC_getHostName
  with assms show ?thesis
    by (simp add: control_inv_def main_step_def call_def split: option.split)
next
  case PC_ncclAllReduce
  with assms obtain h where "nccl_comm st = Some h"
    by (auto simp: control_inv_def)
  with assms PC_ncclAllReduce show ?thesis
    by (simp add: control_inv_def main_step_def call_def after_check_def NCCLCHECK_def
          EXIT_FAILURE_def)
qed (use assms in \<open>simp_all add: control_inv_def main_step_def call_def after_check_def
      MPICHECK_def CUDACHECK_def NCCLCHECK_def EXIT_FAILURE_def Let_def\<close>)

lemma control_inv_watchdog_step:
  assumes "control_inv st"
  shows "control_inv (watchdog_step cfg r st)"
proof (cases "background_watchdog_thread st = Looping")
  case True
  with assms have loop: "pc st = PC_ncclAllReduce"
    by (auto simp: control_inv_def split: if_splits)
  with assms obtain h where h: "nccl_comm st = Some h"
    by (auto simp: control_inv_def)
  obtain evs ex where one: "CheckNCCLError cfg r h = (h, evs, ex)"
    by (metis CheckNCCLError_object fst_conv prod_cases3)
  with CheckNCCLError_status [of cfg r h] have "ex = None \<or> ex = Some 1"
    by simp
  with assms True loop h one show ?thesis
    by (auto simp: control_inv_def watchdog_step_def)
next
  case False
  then have "watchdog_step cfg r st = st"
    by (cases "background_watchdog_thread st") (simp_all add: watchdog_step_def)
  with assms show ?thesis by simp
qed

lemma control_inv_step:
  assumes "control_inv st"
  shows "control_inv (step cfg inp st)"
proof (cases "status st = Running")
  case False
  with assms show ?thesis by (simp add: step_not_running)
next
  case True
  show ?thesis
  proof (cases inp)
    case Sigterm
    with assms True show ?thesis
      by (cases "sigterm_handled st")
         (simp_all add: step_Sigterm step_Sigterm_default control_inv_def)
  next
    case (Main_call r)
    with assms True show ?thesis
      by (simp add: step_Main_call control_inv_main_step)
  next
    case (Watchdog_call r)
    with assms True show ?thesis
      by (simp add: step_Watchdog_call control_inv_watchdog_step)
  qed
qed

lemma control_inv_run: "control_inv st \<Longrightarrow> control_inv (run cfg inputs st)"
  by (induction inputs arbitrary: st) (simp_all add: run_Nil run_Cons control_inv_step)

lemma control_inv_reachable: "control_inv (run cfg inputs main_entry)"
  by (rule control_inv_run [OF control_inv_main_entry])

subsection \<open>Claims about the check macros and the signal handler\<close>



text \<open>
  C7, as stated, fails at one point of the execution: on entry to main the handler is not
  installed yet, and SIGTERM has its default action. The process is killed by the
  signal, prints nothing and has no exit status 0.
\<close>

theorem C7_sigterm_before_signal_call_kills:
  "status main_entry = Running
   \<and> status (run example_config [Sigterm] main_entry) = Killed 15
   \<and> trace (run example_config [Sigterm] main_entry) = []"
  by code_simp

text \<open>
  C7, amended. SIGTERM is handled exactly when main is past its first statement,
  \<open>signal(SIGTERM, handler)\<close>. In every state the process can reach past that
  statement and in which it is still running, SIGTERM prints the message that names
  signal 15 and ends the process with status 0; whatever comes later changes nothing.
\<close>

theorem C7_sigterm_prints_and_exits_0:
  assumes "status (run cfg inputs main_entry) = Running"
      and "pc (run cfg inputs main_entry) \<noteq> PC_signal"
  shows "status (run cfg (inputs @ [Sigterm]) main_entry) = Exited 0
       \<and> trace (run cfg (inputs @ [Sigterm]) main_entry) =
           trace (run cfg inputs main_entry) @ [Printf ''receive signal 15. exit.'']
       \<and> run cfg (inputs @ Sigterm # later) main_entry = run cfg (inputs @ [Sigterm]) main_entry
       \<and> handler SIGTERM = ([Printf ''receive signal 15. exit.''], 0)
       \<and> sigterm_handled (run cfg other main_entry) = (pc (run cfg other main_entry) \<noteq> PC_signal)"
proof -
  have inv: "sigterm_handled (run cfg xs main_entry) = (pc (run cfg xs main_entry) \<noteq> PC_signal)"
    for xs
    using control_inv_reachable [of cfg xs] by (simp add: control_inv_def)
  with assms(2) have handled: "sigterm_handled (run cfg inputs main_entry)"
    by simp
  have h: "handler SIGTERM = ([Printf ''receive signal 15. exit.''], 0)"
    by (simp add: handler_def SIGTERM_def fmt_d_def dec_nat.simps digit_char_def)
  have one: "run cfg (inputs @ [Sigterm]) main_entry =
      (run cfg inputs main_entry)\<lparr>trace := trace (run cfg inputs main_entry)
          @ [Printf ''receive signal 15. exit.''], status := Exited 0\<rparr>"
    by (simp add: run_append run_Cons run_Nil step_Sigterm [OF assms(1) handled])
  have "run cfg (inputs @ Sigterm # later) main_entry =
      run cfg later (run cfg (inputs @ [Sigterm]) main_entry)"
    by (simp add: run_append run_Cons run_Nil)
  also have "\<dots> = run cfg (inputs @ [Sigterm]) main_entry"
    by (rule run_not_running) (simp add: one)
  finally show ?thesis
    using h one inv [of other] by simp
qed

theorem C7_sigterm_witness:
  "status (run example_config
      (example_bootstrap @ [Main_call reply_ok, Watchdog_call reply_fault]) main_entry) = Running
   \<and> status (run example_config
      ((example_bootstrap @ [Main_call reply_ok, Watchdog_call reply_fault]) @ [Sigterm])
      main_entry) = Exited 0
   \<and> last (trace (run example_config
      ((example_bootstrap @ [Main_call reply_ok, Watchdog_call reply_fault]) @ [Sigterm])
      main_entry)) = Printf ''receive signal 15. exit.''
   \<and> status (run example_config [Main_call reply_ok] main_entry) = Running
   \<and> status (run example_config ([Main_call reply_ok] @ [Sigterm]) main_entry) = Exited 0"
proof -
  have a: "status (run example_config
      (example_bootstrap @ [Main_call reply_ok, Watchdog_call reply_fault]) main_entry) = Running"
    "pc (run example_config
      (example_bootstrap @ [Main_call reply_ok, Watchdog_call reply_fault]) main_entry) \<noteq> PC_signal"
    by code_simp+
  have b: "status (run example_config [Main_call reply_ok] main_entry) = Running"
    "pc (run example_config [Main_call reply_ok] main_entry) \<noteq> PC_signal"
    by code_simp+
  from C7_sigterm_prints_and_exits_0 [OF a] C7_sigterm_prints_and_exits_0 [OF b] a b
  show ?thesis by simp
qed

subsection \<open>Steps inside the loops\<close>

lemma main_step_in_loop:
  assumes "pc st = PC_ncclAllReduce" "nccl_comm st = Some h"
  shows "main_step cfg r st =
     (if ret r = ncclSuccess
      then st\<lparr>trace := trace st @ [Call_ncclAllReduce (nccl_comm_member h)]\<rparr>
      else st\<lparr>trace := trace st @ [Call_ncclAllReduce (nccl_comm_member h),
                                      Printf (diagnostic cfg NCCL 172 (ret r))],
              status := Exited 1\<rparr>)"
proof (cases "ret r = ncclSuccess")
  case True
  have "st\<lparr>trace := trace st @ [Call_ncclAllReduce (nccl_comm_member h)],
           pc := PC_ncclAllReduce\<rparr> =
        st\<lparr>trace := trace st @ [Call_ncclAllReduce (nccl_comm_member h)]\<rparr>"
    using assms(1) by simp
  with True assms show ?thesis
    by (simp add: main_step_def NCCLCHECK_def after_check_def call_def GetNCCLComm_def)
next
  case False
  with assms show ?thesis
    by (simp add: main_step_def NCCLCHECK_fails after_check_Failed call_def GetNCCLComm_def)
qed

lemma watchdog_step_in_loop:
  assumes "status st = Running" "background_watchdog_thread st = Looping" "nccl_comm st = Some h"
  shows "watchdog_step cfg r st =
     st\<lparr>trace := trace st @ fst (snd (CheckNCCLError cfg r h)),
        status := (case snd (snd (CheckNCCLError cfg r h)) of
                     Some code \<Rightarrow> Exited code | None \<Rightarrow> Running)\<rparr>"
proof -
  obtain evs ex where one: "CheckNCCLError cfg r h = (h, evs, ex)"
    by (metis CheckNCCLError_object fst_conv prod_cases3)
  have "st\<lparr>nccl_comm := Some h, trace := trace st @ evs,
           status := (case ex of Some code \<Rightarrow> Exited code | None \<Rightarrow> Running),
           background_watchdog_thread := Looping\<rparr> =
        st\<lparr>trace := trace st @ evs,
           status := (case ex of Some code \<Rightarrow> Exited code | None \<Rightarrow> Running)\<rparr>"
    using assms by simp
  with assms one show ?thesis
    by (simp add: watchdog_step_def)
qed

lemma CheckNCCLError_goes_on:
  "query_ret r = ncclSuccess \<Longrightarrow> async_result r = ncclSuccess \<or> abort_ret r = ncclSuccess \<Longrightarrow>
   snd (snd (CheckNCCLError cfg r h)) = None"
  by (cases "async_result r = ncclSuccess")
     (auto simp: CheckNCCLError_healthy CheckNCCLError_fault)

lemma CheckNCCLError_ends:
  "query_ret r \<noteq> ncclSuccess \<or> (async_result r \<noteq> ncclSuccess \<and> abort_ret r \<noteq> ncclSuccess) \<Longrightarrow>
   snd (snd (CheckNCCLError cfg r h)) = Some 1"
  by (cases "query_ret r = ncclSuccess")
     (auto simp: CheckNCCLError_query_fails CheckNCCLError_abort_fails)

lemma CheckNCCLError_first_event:
  "\<exists>rest. fst (snd (CheckNCCLError cfg r h)) = Call_ncclCommGetAsyncError (nccl_comm_member h) # rest"
  by (simp add: CheckNCCLError_def Let_def split: check.split)

lemma main_step_status:
  assumes "control_inv st" "status st = Running"
  shows "status (main_step cfg r st) \<noteq> Exited 0"
proof (cases "pc st")
  case PC_getHostName
  with assms show ?thesis
    by (simp add: main_step_def call_def split: option.split)
next
  case PC_ncclAllReduce
  with assms obtain h where "nccl_comm st = Some h"
    by (auto simp: control_inv_def)
  with assms PC_ncclAllReduce show ?thesis
    by (simp add: main_step_in_loop)
qed (use assms in \<open>simp_all add: control_inv_def main_step_def call_def after_check_def
      MPICHECK_def CUDACHECK_def NCCLCHECK_def EXIT_FAILURE_def Let_def\<close>)

lemma watchdog_step_status:
  assumes "status st = Running"
  shows "status (watchdog_step cfg r st) \<noteq> Exited 0"
proof (cases "background_watchdog_thread st = Looping \<and> nccl_comm st \<noteq> None")
  case True
  then obtain h where h: "nccl_comm st = Some h" by auto
  from CheckNCCLError_status [of cfg r h] True h assms show ?thesis
    by (auto simp: watchdog_step_in_loop)
next
  case False
  then have "watchdog_step cfg r st = st"
    by (cases "background_watchdog_thread st"; cases "nccl_comm st")
       (simp_all add: watchdog_step_def)
  with assms show ?thesis by simp
qed

lemma exit_0_needs_Sigterm:
  "control_inv st \<Longrightarrow> status st = Running \<Longrightarrow> status (run cfg inputs st) = Exited 0 \<Longrightarrow>
   Sigterm \<in> set inputs"
proof (induction inputs arbitrary: st)
  case Nil
  then show ?case by (simp add: run_Nil)
next
  case (Cons x xs)
  show ?case
  proof (cases "x = Sigterm")
    case True
    then show ?thesis by simp
  next
    case False
    have no0: "status (step cfg x st) \<noteq> Exited 0"
      using False Cons.prems(1,2)
      by (cases x) (simp_all add: step_Main_call step_Watchdog_call main_step_status
            watchdog_step_status)
    have inv: "control_inv (step cfg x st)"
      using Cons.prems(1) by (rule control_inv_step)
    show ?thesis
    proof (cases "status (step cfg x st) = Running")
      case True
      from Cons.IH [OF inv True] Cons.prems(3) show ?thesis
        by (simp add: run_Cons)
    next
      case False
      then have "run cfg xs (step cfg x st) = step cfg x st"
        by (rule run_not_running)
      with Cons.prems(3) no0 show ?thesis
        by (simp add: run_Cons)
    qed
  qed
qed

subsection \<open>Claims about the loops\<close>

text \<open>
  C9. With the watchdog thread running, a health check alone ends the process with
  status 1 when its query fails or when it sees a fault and its abort fails: the trace
  ends with the diagnostic line of the failing call (line 66 or 71), and no call of main
  is involved.
\<close>

theorem C9_health_check_can_end_process:
  assumes "status (run cfg inputs main_entry) = Running"
      and "pc (run cfg inputs main_entry) = PC_ncclAllReduce"
      and "query_ret r \<noteq> ncclSuccess \<or> (async_result r \<noteq> ncclSuccess \<and> abort_ret r \<noteq> ncclSuccess)"
  shows "status (run cfg (inputs @ [Watchdog_call r]) main_entry) = Exited 1
       \<and> last (trace (run cfg (inputs @ [Watchdog_call r]) main_entry)) =
           (if query_ret r \<noteq> ncclSuccess
            then Printf (diagnostic cfg NCCL 66 (query_ret r))
            else Printf (diagnostic cfg NCCL 71 (abort_ret r)))
       \<and> snd (snd (CheckNCCLError cfg r h)) = Some 1"
proof -
  let ?st = "run cfg inputs main_entry"
  from control_inv_reachable [of cfg inputs] assms(2)
  obtain h0 where h0: "nccl_comm ?st = Some h0" and th: "background_watchdog_thread ?st = Looping"
    by (auto simp: control_inv_def)
  have step: "run cfg (inputs @ [Watchdog_call r]) main_entry = watchdog_step cfg r ?st"
    by (simp add: run_append run_Cons run_Nil step_Watchdog_call [OF assms(1)])
  show ?thesis
  proof (cases "query_ret r = ncclSuccess")
    case False
    then show ?thesis
      by (simp add: step watchdog_step_in_loop [OF assms(1) th h0] CheckNCCLError_query_fails)
  next
    case True
    with assms(3) have "async_result r \<noteq> ncclSuccess" "abort_ret r \<noteq> ncclSuccess"
      by simp_all
    with True show ?thesis
      by (simp add: step watchdog_step_in_loop [OF assms(1) th h0] CheckNCCLError_abort_fails)
  qed
qed

theorem C9_health_check_witness:
  "status (run example_config example_bootstrap main_entry) = Running
   \<and> status (run example_config (example_bootstrap @ [Watchdog_call reply_query_fails])
        main_entry) = Exited 1
   \<and> last (trace (run example_config (example_bootstrap @ [Watchdog_call reply_query_fails])
        main_entry)) =
       Printf (''Failed, NCCL error test.cc:66 '' @ [CHR 0x27] @ ''unhandled system error''
                 @ [CHR 0x27, CHR 0x0A])
   \<and> status (run example_config (example_bootstrap @ [Watchdog_call reply_abort_fails])
        main_entry) = Exited 1
   \<and> last (trace (run example_config (example_bootstrap @ [Watchdog_call reply_abort_fails])
        main_entry)) =
       Printf (''Failed, NCCL error test.cc:71 '' @ [CHR 0x27] @ ''unhandled system error''
                 @ [CHR 0x27, CHR 0x0A])"
proof -
  have a: "status (run example_config example_bootstrap main_entry) = Running"
    by code_simp
  have b: "pc (run example_config example_bootstrap main_entry) = PC_ncclAllReduce"
    by code_simp
  have q: "query_ret reply_query_fails \<noteq> ncclSuccess
      \<or> (async_result reply_query_fails \<noteq> ncclSuccess \<and> abort_ret reply_query_fails \<noteq> ncclSuccess)"
    by (simp add: example_values)
  have f: "query_ret reply_abort_fails \<noteq> ncclSuccess
      \<or> (async_result reply_abort_fails \<noteq> ncclSuccess \<and> abort_ret reply_abort_fails \<noteq> ncclSuccess)"
    by (simp add: example_values)
  have d: "dec_nat 66 = ''66''" "dec_nat 71 = ''71''"
    by (simp_all add: dec_nat.simps digit_char_def)
  have v: "diagnostic example_config NCCL 66 (query_ret reply_query_fails) =
      ''Failed, NCCL error test.cc:66 '' @ [CHR 0x27] @ ''unhandled system error''
        @ [CHR 0x27, CHR 0x0A]"
    "diagnostic example_config NCCL 71 (abort_ret reply_abort_fails) =
      ''Failed, NCCL error test.cc:71 '' @ [CHR 0x27] @ ''unhandled system error''
        @ [CHR 0x27, CHR 0x0A]"
    by (simp_all add: diagnostic_def example_config_def d)
  from C9_health_check_can_end_process [where h = "NCCLComm_ctor 7", OF a b q]
  have one: "status (run example_config (example_bootstrap @ [Watchdog_call reply_query_fails])
        main_entry) = Exited 1"
    "last (trace (run example_config (example_bootstrap @ [Watchdog_call reply_query_fails])
        main_entry)) = Printf (diagnostic example_config NCCL 66 (query_ret reply_query_fails))"
    by (simp_all add: example_values)
  from C9_health_check_can_end_process [where h = "NCCLComm_ctor 7", OF a b f]
  have two: "status (run example_config (example_bootstrap @ [Watchdog_call reply_abort_fails])
        main_entry) = Exited 1"
    "last (trace (run example_config (example_bootstrap @ [Watchdog_call reply_abort_fails])
        main_entry)) = Printf (diagnostic example_config NCCL 71 (abort_ret reply_abort_fails))"
    by (simp_all add: example_values)
  from a one two show ?thesis
    by (simp only: v)
qed

text \<open>
  C8. In every state the process can reach, main is not at a statement behind its loop
  and the watchdog thread has not returned; the process has status 0 only if SIGTERM
  arrived. With main at the head of its loop and the process running, the next step of
  main calls \<open>ncclAllReduce\<close> once more and, if the call succeeds, is at the head of the
  loop again; the next step of the watchdog queries the communicator once more and, if
  the check does not end the process, the thread is in its loop again.
\<close>

theorem C8_loops_never_terminate:
  "pc (run cfg inputs main_entry) \<noteq> PC_cudaFree_sendbuff
   \<and> pc (run cfg inputs main_entry) \<noteq> PC_cudaFree_recvbuff
   \<and> pc (run cfg inputs main_entry) \<noteq> PC_join
   \<and> background_watchdog_thread (run cfg inputs main_entry) \<noteq> Returned
   \<and> (status (run cfg inputs main_entry) = Exited 0 \<longrightarrow> Sigterm \<in> set inputs)
   \<and> (status (run cfg inputs main_entry) = Running
       \<and> pc (run cfg inputs main_entry) = PC_ncclAllReduce \<longrightarrow>
        (\<exists>h. nccl_comm (run cfg inputs main_entry) = Some h
           \<and> take (Suc (length (trace (run cfg inputs main_entry))))
                (trace (run cfg (inputs @ [Main_call r]) main_entry)) =
               trace (run cfg inputs main_entry) @ [Call_ncclAllReduce (nccl_comm_member h)]
           \<and> (ret r = ncclSuccess \<longrightarrow>
                 status (run cfg (inputs @ [Main_call r]) main_entry) = Running
               \<and> pc (run cfg (inputs @ [Main_call r]) main_entry) = PC_ncclAllReduce)
           \<and> take (Suc (length (trace (run cfg inputs main_entry))))
                (trace (run cfg (inputs @ [Watchdog_call w]) main_entry)) =
               trace (run cfg inputs main_entry) @ [Call_ncclCommGetAsyncError (nccl_comm_member h)]
           \<and> (query_ret w = ncclSuccess \<and> (async_result w = ncclSuccess \<or> abort_ret w = ncclSuccess) \<longrightarrow>
                 status (run cfg (inputs @ [Watchdog_call w]) main_entry) = Running
               \<and> pc (run cfg (inputs @ [Watchdog_call w]) main_entry) = PC_ncclAllReduce
               \<and> background_watchdog_thread (run cfg (inputs @ [Watchdog_call w]) main_entry) =
                   Looping)))"
proof -
  let ?st = "run cfg inputs main_entry"
  have inv: "control_inv ?st"
    by (rule control_inv_reachable)
  then have places: "pc ?st \<noteq> PC_cudaFree_sendbuff" "pc ?st \<noteq> PC_cudaFree_recvbuff"
    "pc ?st \<noteq> PC_join"
    by (simp_all add: control_inv_def)
  from inv have thread: "background_watchdog_thread ?st \<noteq> Returned"
    by (auto simp: control_inv_def split: if_splits)
  have sig: "status ?st = Exited 0 \<longrightarrow> Sigterm \<in> set inputs"
    using exit_0_needs_Sigterm [OF control_inv_main_entry, of cfg inputs]
    by (simp add: main_entry_def)
  have loop: "\<exists>h. nccl_comm ?st = Some h
           \<and> take (Suc (length (trace ?st)))
                (trace (run cfg (inputs @ [Main_call r]) main_entry)) =
               trace ?st @ [Call_ncclAllReduce (nccl_comm_member h)]
           \<and> (ret r = ncclSuccess \<longrightarrow>
                 status (run cfg (inputs @ [Main_call r]) main_entry) = Running
               \<and> pc (run cfg (inputs @ [Main_call r]) main_entry) = PC_ncclAllReduce)
           \<and> take (Suc (length (trace ?st)))
                (trace (run cfg (inputs @ [Watchdog_call w]) main_entry)) =
               trace ?st @ [Call_ncclCommGetAsyncError (nccl_comm_member h)]
           \<and> (query_ret w = ncclSuccess \<and> (async_result w = ncclSuccess \<or> abort_ret w = ncclSuccess) \<longrightarrow>
                 status (run cfg (inputs @ [Watchdog_call w]) main_entry) = Running
               \<and> pc (run cfg (inputs @ [Watchdog_call w]) main_entry) = PC_ncclAllReduce
               \<and> background_watchdog_thread (run cfg (inputs @ [Watchdog_call w]) main_entry) =
                   Looping)"
    if run: "status ?st = Running" and at: "pc ?st = PC_ncclAllReduce"
  proof -
    from inv at obtain h where h: "nccl_comm ?st = Some h"
      and th: "background_watchdog_thread ?st = Looping"
      by (auto simp: control_inv_def)
    have m: "run cfg (inputs @ [Main_call r]) main_entry = main_step cfg r ?st"
      by (simp add: run_append run_Cons run_Nil step_Main_call [OF run])
    have wd: "run cfg (inputs @ [Watchdog_call w]) main_entry = watchdog_step cfg w ?st"
      by (simp add: run_append run_Cons run_Nil step_Watchdog_call [OF run])
    obtain rest where first:
      "fst (snd (CheckNCCLError cfg w h)) = Call_ncclCommGetAsyncError (nccl_comm_member h) # rest"
      using CheckNCCLError_first_event by blast
    have 1: "take (Suc (length (trace ?st))) (trace (main_step cfg r ?st)) =
               trace ?st @ [Call_ncclAllReduce (nccl_comm_member h)]"
      by (simp add: main_step_in_loop [OF at h])
    have 2: "ret r = ncclSuccess \<longrightarrow>
               status (main_step cfg r ?st) = Running \<and> pc (main_step cfg r ?st) = PC_ncclAllReduce"
      by (simp add: main_step_in_loop [OF at h] run at)
    have 3: "take (Suc (length (trace ?st))) (trace (watchdog_step cfg w ?st)) =
               trace ?st @ [Call_ncclCommGetAsyncError (nccl_comm_member h)]"
      by (simp add: watchdog_step_in_loop [OF run th h] first)
    have 4: "query_ret w = ncclSuccess \<and> (async_result w = ncclSuccess \<or> abort_ret w = ncclSuccess) \<longrightarrow>
               status (watchdog_step cfg w ?st) = Running
             \<and> pc (watchdog_step cfg w ?st) = PC_ncclAllReduce
             \<and> background_watchdog_thread (watchdog_step cfg w ?st) = Looping"
      by (auto simp: watchdog_step_in_loop [OF run th h] CheckNCCLError_goes_on at th)
    from h 1 2 3 4 show ?thesis
      by (simp only: m wd) blast
  qed
  from places thread sig loop show ?thesis
    by blast
qed

theorem C8_loops_witness:
  "status (run example_config (example_bootstrap @ [Main_call reply_ok, Watchdog_call reply_fault])
      main_entry) = Running
   \<and> pc (run example_config (example_bootstrap @ [Main_call reply_ok, Watchdog_call reply_fault])
      main_entry) = PC_ncclAllReduce
   \<and> status (run example_config
      ((example_bootstrap @ [Main_call reply_ok, Watchdog_call reply_fault]) @ [Main_call reply_ok])
      main_entry) = Running
   \<and> pc (run example_config
      ((example_bootstrap @ [Main_call reply_ok, Watchdog_call reply_fault]) @ [Main_call reply_ok])
      main_entry) = PC_ncclAllReduce
   \<and> status (run example_config
      ((example_bootstrap @ [Main_call reply_ok, Watchdog_call reply_fault])
        @ [Watchdog_call reply_healthy]) main_entry) = Running
   \<and> background_watchdog_thread (run example_config
      ((example_bootstrap @ [Main_call reply_ok, Watchdog_call reply_fault])
        @ [Watchdog_call reply_healthy]) main_entry) = Looping
   \<and> status (run example_config (example_bootstrap @ [Sigterm]) main_entry) = Exited 0
   \<and> Sigterm \<in> set (example_bootstrap @ [Sigterm])"
proof -
  let ?inputs = "example_bootstrap @ [Main_call reply_ok, Watchdog_call reply_fault]"
  have a: "status (run example_config ?inputs main_entry) = Running"
    by code_simp
  have b: "pc (run example_config ?inputs main_entry) = PC_ncclAllReduce"
    by code_simp
  have c: "ret reply_ok = ncclSuccess"
    "query_ret reply_healthy = ncclSuccess
      \<and> (async_result reply_healthy = ncclSuccess \<or> abort_ret reply_healthy = ncclSuccess)"
    by (simp_all add: reply_ok_def example_values ncclSuccess_def)
  have z: "status (run example_config (example_bootstrap @ [Sigterm]) main_entry) = Exited 0"
    by code_simp
  from C8_loops_never_terminate [where cfg = example_config and inputs = ?inputs
      and r = reply_ok and w = reply_healthy] a b c
  have loop: "status (run example_config (?inputs @ [Main_call reply_ok]) main_entry) = Running"
    "pc (run example_config (?inputs @ [Main_call reply_ok]) main_entry) = PC_ncclAllReduce"
    "status (run example_config (?inputs @ [Watchdog_call reply_healthy]) main_entry) = Running"
    "background_watchdog_thread
       (run example_config (?inputs @ [Watchdog_call reply_healthy]) main_entry) = Looping"
    by blast+
  from C8_loops_never_terminate [where cfg = example_config
      and inputs = "example_bootstrap @ [Sigterm]"] z
  have "Sigterm \<in> set (example_bootstrap @ [Sigterm])"
    by blast
  with a b loop z show ?thesis
    by blast
qed

subsection \<open>How the process ends once it is in the loops\<close>

lemma ending_input_in_loop:
  "control_inv st \<Longrightarrow> pc st = PC_ncclAllReduce \<Longrightarrow> status st = Running \<Longrightarrow>
   status (run cfg later st) = Exited 1 \<Longrightarrow>
   (case ending_input cfg later st of
      Some (Main_call a) \<Rightarrow> ret a \<noteq> ncclSuccess
    | Some (Watchdog_call w) \<Rightarrow>
        query_ret w \<noteq> ncclSuccess \<or> (async_result w \<noteq> ncclSuccess \<and> abort_ret w \<noteq> ncclSuccess)
    | _ \<Rightarrow> False)"
proof (induction later arbitrary: st)
  case Nil
  then show ?case by (simp add: run_Nil)
next
  case (Cons x xs)
  from Cons.prems(1,2) obtain h where h: "nccl_comm st = Some h"
    and th: "background_watchdog_thread st = Looping"
    by (auto simp: control_inv_def)
  have inv: "control_inv (step cfg x st)"
    using Cons.prems(1) by (rule control_inv_step)
  from Cons.prems(1,2) have handled: "sigterm_handled st"
    by (simp add: control_inv_def)
  have all: "status (run cfg xs (step cfg x st)) = Exited 1"
    using Cons.prems(4) by (simp add: run_Cons)
  show ?case
  proof (cases x)
    case Sigterm
    have "status (step cfg Sigterm st) = Exited 0"
      by (simp add: step_Sigterm [OF Cons.prems(3) handled])
    moreover from this have "run cfg xs (step cfg Sigterm st) = step cfg Sigterm st"
      by (intro run_not_running) simp
    ultimately show ?thesis
      using all Sigterm by simp
  next
    case (Main_call a)
    have st': "step cfg x st = main_step cfg a st"
      by (simp add: Main_call step_Main_call [OF Cons.prems(3)])
    show ?thesis
    proof (cases "ret a = ncclSuccess")
      case True
      then have run': "status (step cfg x st) = Running" "pc (step cfg x st) = PC_ncclAllReduce"
        by (simp_all add: st' main_step_in_loop [OF Cons.prems(2) h] Cons.prems)
      from Cons.IH [OF inv run'(2) run'(1) all] run' Cons.prems(3) show ?thesis
        by simp
    next
      case False
      then have "status (step cfg x st) = Exited 1"
        by (simp add: st' main_step_in_loop [OF Cons.prems(2) h])
      with False Cons.prems(3) Main_call show ?thesis
        by simp
    qed
  next
    case (Watchdog_call w)
    have st': "step cfg x st = watchdog_step cfg w st"
      by (simp add: Watchdog_call step_Watchdog_call [OF Cons.prems(3)])
    show ?thesis
    proof (cases "query_ret w \<noteq> ncclSuccess
        \<or> (async_result w \<noteq> ncclSuccess \<and> abort_ret w \<noteq> ncclSuccess)")
      case True
      then have "status (step cfg x st) = Exited 1"
        by (simp add: st' watchdog_step_in_loop [OF Cons.prems(3) th h] CheckNCCLError_ends)
      with True Cons.prems(3) Watchdog_call show ?thesis
        by simp
    next
      case False
      then have "snd (snd (CheckNCCLError cfg w h)) = None"
        by (intro CheckNCCLError_goes_on) auto
      then have run': "status (step cfg x st) = Running" "pc (step cfg x st) = PC_ncclAllReduce"
        by (simp_all add: st' watchdog_step_in_loop [OF Cons.prems(3) th h] Cons.prems)
      from Cons.IH [OF inv run'(2) run'(1) all] run' Cons.prems(3) show ?thesis
        by simp
    qed
  qed
qed

text \<open>
  C2, as stated, fails in its second half: after a health check that saw a fault and
  aborted, the next health check ends the process with status 1 when its own query
  fails, and \<open>ncclAllReduce\<close> has not been called at all.
\<close>

theorem C2_later_health_check_ends_process:
  "status (run example_config (example_bootstrap @ [Watchdog_call reply_fault]) main_entry) =
     Running
   \<and> abort_calls (trace (run example_config (example_bootstrap @ [Watchdog_call reply_fault])
        main_entry)) = [7]
   \<and> status (run example_config
        (example_bootstrap @ [Watchdog_call reply_fault, Watchdog_call reply_query_fails])
        main_entry) = Exited 1
   \<and> allreduce_calls (trace (run example_config
        (example_bootstrap @ [Watchdog_call reply_fault, Watchdog_call reply_query_fails])
        main_entry)) = []"
  by code_simp

text \<open>
  C2, amended. With the process running and main in its loop: a health check whose
  query succeeds, that sees a code other than Ok and whose abort succeeds, only adds
  its events to the trace (the query, the two log lines, the abort, the line with the
  elapsed time); the process goes on. If the process later ends with status 1, the
  input that ended it is a call of \<open>ncclAllReduce\<close> that reported failure, or a health
  check whose own query or abort failed.
\<close>

theorem C2_fault_logged_exit_deferred:
  assumes "status (run cfg inputs main_entry) = Running"
      and "pc (run cfg inputs main_entry) = PC_ncclAllReduce"
  shows "(query_ret r = ncclSuccess \<and> async_result r \<noteq> ncclSuccess \<and> abort_ret r = ncclSuccess \<longrightarrow>
           (\<exists>h. nccl_comm (run cfg inputs main_entry) = Some h
              \<and> run cfg (inputs @ [Watchdog_call r]) main_entry =
                  (run cfg inputs main_entry)
                    \<lparr>trace := trace (run cfg inputs main_entry) @
                       [Call_ncclCommGetAsyncError (nccl_comm_member h),
                        Printf (''ncclCommGetAsyncError result: ''
                                  @ ncclGetErrorString cfg (async_result r) @ [CHR 0x0A]),
                        Printf (''[DEBUG] ncclComAbort starts!'' @ [CHR 0x0A]),
                        Call_ncclCommAbort (nccl_comm_member h),
                        Printf (''[DEBUG] ncclComAbort finishes! Time elapsed = ''
                                  @ fmt_2f (abort_ms r) @ '' ms.'' @ [CHR 0x0A])]\<rparr>))
       \<and> (status (run cfg (inputs @ later) main_entry) = Exited 1 \<longrightarrow>
           (case ending_input cfg later (run cfg inputs main_entry) of
              Some (Main_call a) \<Rightarrow> ret a \<noteq> ncclSuccess
            | Some (Watchdog_call w) \<Rightarrow>
                query_ret w \<noteq> ncclSuccess
                \<or> (async_result w \<noteq> ncclSuccess \<and> abort_ret w \<noteq> ncclSuccess)
            | _ \<Rightarrow> False))"
proof -
  let ?st = "run cfg inputs main_entry"
  have inv: "control_inv ?st"
    by (rule control_inv_reachable)
  with assms(2) obtain h where h: "nccl_comm ?st = Some h"
    and th: "background_watchdog_thread ?st = Looping"
    by (auto simp: control_inv_def)
  have one: "run cfg (inputs @ [Watchdog_call r]) main_entry =
      ?st\<lparr>trace := trace ?st @
           [Call_ncclCommGetAsyncError (nccl_comm_member h),
            Printf (''ncclCommGetAsyncError result: ''
                      @ ncclGetErrorString cfg (async_result r) @ [CHR 0x0A]),
            Printf (''[DEBUG] ncclComAbort starts!'' @ [CHR 0x0A]),
            Call_ncclCommAbort (nccl_comm_member h),
            Printf (''[DEBUG] ncclComAbort finishes! Time elapsed = ''
                      @ fmt_2f (abort_ms r) @ '' ms.'' @ [CHR 0x0A])]\<rparr>"
    if r: "query_ret r = ncclSuccess" "async_result r \<noteq> ncclSuccess" "abort_ret r = ncclSuccess"
  proof -
    have "run cfg (inputs @ [Watchdog_call r]) main_entry = watchdog_step cfg r ?st"
      by (simp add: run_append run_Cons run_Nil step_Watchdog_call [OF assms(1)])
    also have "\<dots> = ?st\<lparr>trace := trace ?st @ fst (snd (CheckNCCLError cfg r h)),
        status := (case snd (snd (CheckNCCLError cfg r h)) of
                     Some code \<Rightarrow> Exited code | None \<Rightarrow> Running)\<rparr>"
      by (rule watchdog_step_in_loop [OF assms(1) th h])
    finally show ?thesis
      using assms(1) by (simp add: CheckNCCLError_fault [OF r])
  qed
  have two: "case ending_input cfg later ?st of
              Some (Main_call a) \<Rightarrow> ret a \<noteq> ncclSuccess
            | Some (Watchdog_call w) \<Rightarrow>
                query_ret w \<noteq> ncclSuccess
                \<or> (async_result w \<noteq> ncclSuccess \<and> abort_ret w \<noteq> ncclSuccess)
            | _ \<Rightarrow> False"
    if "status (run cfg (inputs @ later) main_entry) = Exited 1"
    using ending_input_in_loop [OF inv assms(2) assms(1), of cfg later] that
    by (simp add: run_append)
  from h one two show ?thesis
    by blast
qed

theorem C2_fault_logged_exit_deferred_witness:
  "status (run example_config (example_bootstrap @ [Watchdog_call reply_fault]) main_entry) =
     Running
   \<and> status (run example_config
        (example_bootstrap @ [Watchdog_call reply_fault, Main_call (reply_ok\<lparr>ret := 2\<rparr>)])
        main_entry) = Exited 1
   \<and> (case ending_input example_config
              [Watchdog_call reply_fault, Main_call (reply_ok\<lparr>ret := 2\<rparr>)]
              (run example_config example_bootstrap main_entry) of
         Some (Main_call a) \<Rightarrow> ret a \<noteq> ncclSuccess
       | Some (Watchdog_call w) \<Rightarrow>
           query_ret w \<noteq> ncclSuccess
           \<or> (async_result w \<noteq> ncclSuccess \<and> abort_ret w \<noteq> ncclSuccess)
       | _ \<Rightarrow> False)"
proof -
  have a: "status (run example_config example_bootstrap main_entry) = Running"
    by code_simp
  have b: "pc (run example_config example_bootstrap main_entry) = PC_ncclAllReduce"
    by code_simp
  have c: "query_ret reply_fault = ncclSuccess \<and> async_result reply_fault \<noteq> ncclSuccess
      \<and> abort_ret reply_fault = ncclSuccess"
    by (simp add: example_values)
  have d: "status (run example_config
        (example_bootstrap @ [Watchdog_call reply_fault, Main_call (reply_ok\<lparr>ret := 2\<rparr>)])
        main_entry) = Exited 1"
    by code_simp
  note t = C2_fault_logged_exit_deferred [OF a b, where r = reply_fault
      and later = "[Watchdog_call reply_fault, Main_call (reply_ok\<lparr>ret := 2\<rparr>)]"]
  from conjunct1 [OF t, THEN mp, OF c]
  have "status (run example_config (example_bootstrap @ [Watchdog_call reply_fault])
      main_entry) = status (run example_config example_bootstrap main_entry)"
    by (elim exE conjE) simp
  with a conjunct2 [OF t, THEN mp, OF d] d show ?thesis
    by simp
qed

section \<open>The host name, its hash and localRank\<close>

subsection \<open>getHostName\<close>

lemma getHostName_loop_no_dot:
  assumes "nat maxlen \<le> length buf" "46 \<notin> set (take (nat maxlen) buf)"
  shows "i \<le> nat maxlen \<Longrightarrow> getHostName_loop buf maxlen i = Some buf"
proof (induction "nat maxlen - i" arbitrary: i)
  case 0
  then have "\<not> int i < maxlen" by simp
  then show ?case
    by (subst getHostName_loop.simps) simp
next
  case (Suc d)
  then have i: "i < nat maxlen" by simp
  with assms(1) have len: "i < length buf" by simp
  from i len have "buf ! i \<in> set (take (nat maxlen) buf)"
    by (metis length_take min.absorb2 assms(1) nth_mem nth_take)
  with assms(2) have nodot: "buf ! i \<noteq> 46" by metis
  from Suc(2) i have "d = nat maxlen - Suc i" "Suc i \<le> nat maxlen" by simp_all
  then have "getHostName_loop buf maxlen (Suc i) = Some buf"
    by (rule Suc(1))
  with i len nodot show ?case
    by (subst getHostName_loop.simps) simp
qed

lemma getHostName_loop_first_dot:
  assumes "k < nat maxlen" "nat maxlen \<le> length buf" "buf ! k = 46"
      and "\<forall>j<k. buf ! j \<noteq> 46"
  shows "i \<le> k \<Longrightarrow> getHostName_loop buf maxlen i = Some (buf[k := 0])"
proof (induction "k - i" arbitrary: i)
  case 0
  then have "i = k" by simp
  moreover from assms(1) have "int k < maxlen" by simp
  ultimately show ?case
    using assms(1,2,3) by (subst getHostName_loop.simps) simp
next
  case (Suc d)
  then have i: "i < k" by simp
  with assms(1,2) have len: "i < length buf" "int i < maxlen" by simp_all
  from i assms(4) have nodot: "buf ! i \<noteq> 46" by simp
  from Suc(2) i have "d = k - Suc i" "Suc i \<le> k" by simp_all
  then have "getHostName_loop buf maxlen (Suc i) = Some (buf[k := 0])"
    by (rule Suc(1))
  with len nodot show ?case
    by (subst getHostName_loop.simps) simp
qed

subsection \<open>getHostHash\<close>

lemma shift_add_is_times_33: "push_bit 5 (w :: uint64_t) + w = w * 33"
  by (simp add: push_bit_eq_mult)

lemma getHostHash_loop_terminated:
  "0 \<notin> set name \<Longrightarrow>
   getHostHash_loop sg (name @ 0 # rest) result =
     Some (fold (\<lambda>ch result. (result * 33) XOR char_to_uint64 sg ch) name result)"
  by (induction name arbitrary: result) (simp_all add: shift_add_is_times_33)

lemma getHostHash_loop_unterminated:
  "0 \<notin> set name \<Longrightarrow> getHostHash_loop sg name result = None"
  by (induction name arbitrary: result) simp_all

lemma takeWhile_stops: "\<not> P x \<Longrightarrow> takeWhile P (ys @ x # zs) = takeWhile P ys"
  by (induction ys) simp_all

subsection \<open>The loop for localRank\<close>

lemma localRank_loop_counts:
  assumes "0 \<le> rank" "rank < ranks"
  shows "p \<le> nat rank \<Longrightarrow>
    localRank_loop hashes rank ranks p acc =
      acc + int (length (filter (\<lambda>q. hashes ! q = hashes ! nat rank)
                                 [p..<nat rank]))"
proof (induction "nat rank - p" arbitrary: p acc)
  case 0
  with assms have "int p = rank" by simp
  with assms show ?case
    by (subst localRank_loop.simps) simp
next
  case (Suc d)
  then have p: "p < nat rank" by simp
  with assms have c: "int p < ranks" "int p \<noteq> rank" by simp_all
  from Suc(2) p have "d = nat rank - Suc p" "Suc p \<le> nat rank" by simp_all
  note ih = Suc(1) [OF this]
  from p have up: "[p..<nat rank] = p # [Suc p..<nat rank]"
    by (simp add: upt_conv_Cons)
  from c show ?case
    by (subst localRank_loop.simps) (simp add: ih up)
qed

lemma truncate_at_dot_stops:
  "0 \<notin> set name \<Longrightarrow> 46 \<notin> set name \<Longrightarrow> x = 0 \<or> x = 46 \<Longrightarrow>
   truncate_at_dot (name @ x # rest) = name"
proof -
  assume a: "0 \<notin> set name" "46 \<notin> set name" "x = 0 \<or> x = 46"
  then have "takeWhile (\<lambda>ch. ch \<noteq> 0 \<and> ch \<noteq> 46) (name @ x # rest) =
      takeWhile (\<lambda>ch. ch \<noteq> 0 \<and> ch \<noteq> 46) name"
    by (intro takeWhile_stops) auto
  also from a have "\<dots> = name"
    by (intro takeWhile_eq_all_conv [THEN iffD2]) auto
  finally show ?thesis
    by (simp add: truncate_at_dot_def)
qed

lemma getHostHash_terminated:
  "0 \<notin> set name \<Longrightarrow> getHostHash cfg (name @ 0 # rest) = Some (djb2a (char_is_signed cfg) name)"
  by (simp add: getHostHash_def djb2a_def getHostHash_loop_terminated)

lemma hostname_hash:
  assumes len: "nat maxlen = length buf"
      and name: "getHostName_loop buf maxlen 0 = Some name"
      and hash: "getHostHash cfg name = Some H"
  shows "H = djb2a (char_is_signed cfg) (truncate_at_dot buf)"
proof (cases "46 \<in> set buf")
  case True
  then obtain ys zs where buf: "buf = ys @ 46 # zs" and ys: "46 \<notin> set ys"
    by (meson split_list_first)
  have "getHostName_loop buf maxlen 0 = Some (buf[length ys := 0])"
  proof (rule getHostName_loop_first_dot)
    show "length ys < nat maxlen" using len buf by simp
    show "nat maxlen \<le> length buf" using len by simp
    show "buf ! length ys = 46" using buf by simp
    show "\<forall>j<length ys. buf ! j \<noteq> 46"
      using ys buf by (auto simp: nth_append dest: nth_mem)
  qed simp
  with name buf have n: "name = ys @ 0 # zs"
    by simp
  show ?thesis
  proof (cases "0 \<in> set ys")
    case False
    with hash n have "H = djb2a (char_is_signed cfg) ys"
      by (simp add: getHostHash_terminated)
    moreover from False ys have "truncate_at_dot buf = ys"
      unfolding buf by (intro truncate_at_dot_stops) simp_all
    ultimately show ?thesis by simp
  next
    case True
    then obtain as bs where split: "ys = as @ 0 # bs" and as: "0 \<notin> set as"
      by (meson split_list_first)
    from n split have "name = as @ 0 # (bs @ 0 # zs)" by simp
    with hash as have "H = djb2a (char_is_signed cfg) as"
      by (simp add: getHostHash_terminated)
    moreover have "truncate_at_dot (as @ 0 # (bs @ 46 # zs)) = as"
      using as ys split by (intro truncate_at_dot_stops) simp_all
    then have "truncate_at_dot buf = as"
      by (simp add: buf split)
    ultimately show ?thesis by simp
  qed
next
  case False
  with len have "getHostName_loop buf maxlen 0 = Some buf"
    by (intro getHostName_loop_no_dot) simp_all
  with name have n: "name = buf" by simp
  have "0 \<in> set buf"
  proof (rule ccontr)
    assume "0 \<notin> set buf"
    then have "getHostHash cfg buf = None"
      by (simp add: getHostHash_def getHostHash_loop_unterminated)
    with hash n show False by simp
  qed
  then obtain as bs where split: "buf = as @ 0 # bs" and as: "0 \<notin> set as"
    by (meson split_list_first)
  from hash n split as have "H = djb2a (char_is_signed cfg) as"
    by (simp add: getHostHash_terminated)
  moreover from False split have "46 \<notin> set as" by simp
  with as have "truncate_at_dot (as @ 0 # bs) = as"
    by (intro truncate_at_dot_stops) simp_all
  ultimately show ?thesis by (simp add: split)
qed

subsection \<open>Claim about getHostName\<close>

text \<open>
  C10. Let the scan stay inside the array (\<open>maxlen\<close> is at most its length). If none of
  the first \<open>maxlen\<close> characters left by \<open>gethostname\<close> is a dot, \<open>getHostName\<close> returns
  the buffer as \<open>gethostname\<close> left it, with nothing added. If position \<open>k\<close> below
  \<open>maxlen\<close> holds the first dot, the buffer is the same except that position \<open>k\<close> holds
  the terminator.
\<close>

theorem C10_getHostName_cuts_at_first_dot:
  assumes "nat maxlen \<le> length (gethostname buffer maxlen)"
  shows "(46 \<notin> set (take (nat maxlen) (gethostname buffer maxlen)) \<longrightarrow>
            getHostName gethostname buffer maxlen = Some (gethostname buffer maxlen))
       \<and> (k < nat maxlen \<and> gethostname buffer maxlen ! k = 46
            \<and> 46 \<notin> set (take k (gethostname buffer maxlen)) \<longrightarrow>
            getHostName gethostname buffer maxlen = Some ((gethostname buffer maxlen)[k := 0])
          \<and> length ((gethostname buffer maxlen)[k := 0]) = length (gethostname buffer maxlen)
          \<and> (\<forall>j. j \<noteq> k \<longrightarrow>
                (gethostname buffer maxlen)[k := 0] ! j = gethostname buffer maxlen ! j))"
proof -
  let ?buf = "gethostname buffer maxlen"
  have none: "getHostName gethostname buffer maxlen = Some ?buf"
    if "46 \<notin> set (take (nat maxlen) ?buf)"
    unfolding getHostName_def using assms that
    by (intro getHostName_loop_no_dot) simp_all
  have first: "getHostName gethostname buffer maxlen = Some (?buf[k := 0])"
    if k: "k < nat maxlen" "?buf ! k = 46" "46 \<notin> set (take k ?buf)"
    unfolding getHostName_def
  proof (rule getHostName_loop_first_dot [OF k(1) assms k(2)])
    show "\<forall>j<k. ?buf ! j \<noteq> 46"
    proof (intro allI impI)
      fix j assume j: "j < k"
      with k(1) assms have "j < length (take k ?buf)" by simp
      then have "take k ?buf ! j \<in> set (take k ?buf)" by (rule nth_mem)
      with j k(3) show "?buf ! j \<noteq> 46" by auto
    qed
  qed simp
  from none first show ?thesis by simp
qed

theorem C10_getHostName_witness:
  "getHostName (\<lambda>b l. example_hostname) (replicate 1024 0) 1024 =
     Some (example_hostname[10 := 0])
   \<and> example_hostname ! 10 = 46
   \<and> example_hostname[10 := 0] ! 18 = 46
   \<and> getHostName (\<lambda>b l. example_hostname) (replicate 1024 0) 5 = Some example_hostname"
proof -
  have len: "nat 1024 \<le> length example_hostname" "nat 5 \<le> length example_hostname"
    by (simp_all add: example_hostname_def)
  have dot: "(10::nat) < nat 1024" "example_hostname ! 10 = 46"
    "46 \<notin> set (take 10 example_hostname)" "46 \<notin> set (take (nat 5) example_hostname)"
    "example_hostname[10 := 0] ! 18 = 46"
    by code_simp+
  from C10_getHostName_cuts_at_first_dot [where gethostname = "\<lambda>b l. example_hostname"
      and buffer = "replicate 1024 0" and maxlen = 1024 and k = 10]
    C10_getHostName_cuts_at_first_dot [where gethostname = "\<lambda>b l. example_hostname"
      and buffer = "replicate 1024 0" and maxlen = 5 and k = 0] len dot
  show ?thesis by simp
qed

subsection \<open>Invariants of the data\<close>

lemma CheckNCCLError_events:
  "Call_gethostname buf \<notin> set (fst (snd (CheckNCCLError cfg r h)))"
  "Call_cudaSetDevice d \<notin> set (fst (snd (CheckNCCLError cfg r h)))"
  by (simp_all add: CheckNCCLError_def Let_def split: check.split)

lemma watchdog_step_frame:
  "\<exists>evs s h. watchdog_step cfg r st = st\<lparr>nccl_comm := h, trace := trace st @ evs, status := s\<rparr>
     \<and> (\<forall>buf. Call_gethostname buf \<notin> set evs) \<and> (\<forall>d. Call_cudaSetDevice d \<notin> set evs)
     \<and> (status st = Running \<longrightarrow> evs = [] \<longrightarrow> s = Running)"
proof (cases "background_watchdog_thread st = Looping \<and> nccl_comm st \<noteq> None")
  case True
  then obtain h where h: "nccl_comm st = Some h" by auto
  obtain evs ex where one: "CheckNCCLError cfg r h = (h, evs, ex)"
    by (metis CheckNCCLError_object fst_conv prod_cases3)
  from CheckNCCLError_first_event [of cfg r h] one have ne: "evs \<noteq> []" by auto
  have "watchdog_step cfg r st =
      st\<lparr>nccl_comm := Some h, trace := trace st @ evs,
         status := (case ex of Some code \<Rightarrow> Exited code | None \<Rightarrow> Running)\<rparr>"
    using True h one by (simp add: watchdog_step_def)
  moreover from CheckNCCLError_events [of _ cfg r h] one
  have "\<forall>buf. Call_gethostname buf \<notin> set evs" "\<forall>d. Call_cudaSetDevice d \<notin> set evs"
    by simp_all
  ultimately show ?thesis using ne by blast
next
  case False
  then have "watchdog_step cfg r st = st"
    by (cases "background_watchdog_thread st"; cases "nccl_comm st")
       (simp_all add: watchdog_step_def)
  then have "watchdog_step cfg r st =
      st\<lparr>nccl_comm := nccl_comm st, trace := trace st @ [], status := status st\<rparr>"
    by simp
  then show ?thesis
    by (intro exI [of _ "[]"] exI [of _ "status st"] exI [of _ "nccl_comm st"]) simp
qed

lemma rank_inv_main_step:
  assumes "rank_inv cfg st"
  shows "rank_inv cfg (main_step cfg r st)"
proof (cases "pc st")
  case PC_getHostName
  with assms show ?thesis
    by (auto simp: rank_inv_def main_step_def call_def split: option.split)
next
  case PC_MPI_Allgather
  with assms have r: "0 \<le> myRank st" "myRank st < nRanks st"
    "length (hostHashs st) = nat (nRanks st)" "localRank st = 0"
    "getHostHash cfg (hostname st) = Some (hostHashs st ! nat (myRank st))"
    by (simp_all add: rank_inv_def)
  let ?gathered = "map (\<lambda>p. if int p = myRank st then hostHashs st ! p else out_hashes r p)
      [0..<length (hostHashs st)]"
  from r have own: "?gathered ! nat (myRank st) = hostHashs st ! nat (myRank st)"
    by simp
  have count: "localRank_loop ?gathered (myRank st) (nRanks st) 0 0 =
      same_host_before ?gathered (myRank st)"
    using localRank_loop_counts [OF r(1,2), of 0 ?gathered 0]
    by (simp add: same_host_before_def)
  show ?thesis
  proof (cases "ret r = MPI_SUCCESS")
    case True
    with PC_MPI_Allgather r own count show ?thesis
      by (simp add: rank_inv_def main_step_def call_def after_check_def MPICHECK_def Let_def
            cong: if_cong)
  next
    case False
    with PC_MPI_Allgather assms show ?thesis
      by (simp add: rank_inv_def main_step_def call_def MPICHECK_fails after_check_Failed)
  qed
next
  case PC_ncclAllReduce
  with assms show ?thesis
    by (cases "nccl_comm st")
       (simp_all add: rank_inv_def main_step_def call_def after_check_def NCCLCHECK_def)
qed (use assms in \<open>simp_all add: rank_inv_def main_step_def call_def after_check_def
      MPICHECK_def CUDACHECK_def NCCLCHECK_def Let_def\<close>)

lemma hostname_inv_main_step:
  assumes "hostname_inv st" "status st = Running"
  shows "hostname_inv (main_step cfg r st)"
proof (cases "pc st")
  case PC_getHostName
  with assms have none: "\<forall>buf. Call_gethostname buf \<notin> set (trace st)"
    by (auto simp: hostname_inv_def)
  with PC_getHostName show ?thesis
    by (auto simp: hostname_inv_def main_step_def call_def getHostName_def split: option.split)
next
  case PC_ncclAllReduce
  with assms show ?thesis
    by (cases "nccl_comm st")
       (simp_all add: hostname_inv_def main_step_def call_def after_check_def NCCLCHECK_def)
next
  case PC_join
  with assms show ?thesis
    by (cases "nccl_comm st") (auto simp: hostname_inv_def main_step_def NCCLComm_dtor_def)
qed (use assms in \<open>simp_all add: hostname_inv_def main_step_def call_def after_check_def
      MPICHECK_def CUDACHECK_def NCCLCHECK_def Let_def\<close>)

lemma device_inv_main_step:
  assumes "device_inv st"
  shows "device_inv (main_step cfg r st)"
proof (cases "pc st")
  case PC_getHostName
  with assms show ?thesis
    by (auto simp: device_inv_def main_step_def call_def split: option.split)
next
  case PC_ncclAllReduce
  with assms show ?thesis
    by (cases "nccl_comm st")
       (simp_all add: device_inv_def main_step_def call_def after_check_def NCCLCHECK_def)
next
  case PC_join
  with assms show ?thesis
    by (cases "nccl_comm st") (auto simp: device_inv_def main_step_def NCCLComm_dtor_def)
qed (use assms in \<open>simp_all add: device_inv_def main_step_def call_def after_check_def
      MPICHECK_def CUDACHECK_def NCCLCHECK_def Let_def\<close>)

lemma data_inv_step:
  assumes "rank_inv cfg st" "hostname_inv st" "device_inv st"
  shows "rank_inv cfg (step cfg x st) \<and> hostname_inv (step cfg x st) \<and> device_inv (step cfg x st)"
proof (cases "status st = Running")
  case False
  with assms show ?thesis by (simp add: step_not_running)
next
  case True
  show ?thesis
  proof (cases x)
    case Sigterm
    with assms True show ?thesis
      by (cases "sigterm_handled st")
         (simp_all add: step_Sigterm step_Sigterm_default rank_inv_def hostname_inv_def
            device_inv_def)
  next
    case (Main_call r)
    with assms True show ?thesis
      by (simp add: step_Main_call rank_inv_main_step hostname_inv_main_step device_inv_main_step)
  next
    case (Watchdog_call r)
    from watchdog_step_frame [of cfg r st] obtain evs s h where
      w: "watchdog_step cfg r st = st\<lparr>nccl_comm := h, trace := trace st @ evs, status := s\<rparr>"
      and evs: "\<forall>buf. Call_gethostname buf \<notin> set evs" "\<forall>d. Call_cudaSetDevice d \<notin> set evs"
      by blast
    have "rank_inv cfg (watchdog_step cfg r st)"
      using assms(1) by (simp add: w rank_inv_def)
    moreover have "hostname_inv (watchdog_step cfg r st)"
      using assms(2) True evs(1) by (auto simp: w hostname_inv_def)
    moreover have "device_inv (watchdog_step cfg r st)"
      using assms(3) evs(2) by (auto simp: w device_inv_def)
    ultimately show ?thesis
      using True Watchdog_call by (simp add: step_Watchdog_call)
  qed
qed

lemma data_inv_run:
  "rank_inv cfg st \<and> hostname_inv st \<and> device_inv st \<Longrightarrow>
   rank_inv cfg (run cfg inputs st) \<and> hostname_inv (run cfg inputs st)
     \<and> device_inv (run cfg inputs st)"
proof (induction inputs arbitrary: st)
  case Nil
  then show ?case by (simp add: run_Nil)
next
  case (Cons x xs)
  from Cons.prems have "rank_inv cfg (step cfg x st) \<and> hostname_inv (step cfg x st)
      \<and> device_inv (step cfg x st)"
    by (intro data_inv_step) simp_all
  then show ?case
    unfolding run_Cons by (rule Cons.IH)
qed

lemma data_inv_reachable:
  "rank_inv cfg (run cfg inputs main_entry)" "hostname_inv (run cfg inputs main_entry)"
  "device_inv (run cfg inputs main_entry)"
proof -
  have "rank_inv cfg main_entry \<and> hostname_inv main_entry \<and> device_inv main_entry"
    by (simp add: rank_inv_def hostname_inv_def device_inv_def main_entry_def)
  from data_inv_run [OF this, of inputs]
  show "rank_inv cfg (run cfg inputs main_entry)" "hostname_inv (run cfg inputs main_entry)"
    "device_inv (run cfg inputs main_entry)"
    by simp_all
qed

subsection \<open>Claim about the device index\<close>

text \<open>
  C5. Whenever the process has called \<open>cudaSetDevice\<close>, with the index \<open>d\<close>: the own
  rank is inside the gathered array of hashes, and \<open>d\<close> is the number of ranks below
  the own rank whose entry equals the own entry. \<open>gethostname\<close> has been called, and
  when it filled the whole buffer of 1024 characters, the own entry is the hash (start
  at 5381, then \<open>result * 33 ^ char\<close>) of the characters before the first dot or
  terminator of that buffer.
\<close>

theorem C5_device_index_counts_same_host_ranks_below:
  assumes "Call_cudaSetDevice d \<in> set (trace (run cfg inputs main_entry))"
  shows "0 \<le> myRank (run cfg inputs main_entry)
       \<and> myRank (run cfg inputs main_entry) < nRanks (run cfg inputs main_entry)
       \<and> length (hostHashs (run cfg inputs main_entry)) = nat (nRanks (run cfg inputs main_entry))
       \<and> d = int (length (filter
                 (\<lambda>p. hostHashs (run cfg inputs main_entry) ! p =
                       hostHashs (run cfg inputs main_entry) ! nat (myRank (run cfg inputs main_entry)))
                 [0..<nat (myRank (run cfg inputs main_entry))]))
       \<and> (\<exists>buf. Call_gethostname buf \<in> set (trace (run cfg inputs main_entry)))
       \<and> (Call_gethostname buf \<in> set (trace (run cfg inputs main_entry)) \<and> length buf = 1024 \<longrightarrow>
            hostHashs (run cfg inputs main_entry) ! nat (myRank (run cfg inputs main_entry)) =
              djb2a (char_is_signed cfg) (truncate_at_dot buf))"
proof -
  let ?st = "run cfg inputs main_entry"
  from data_inv_reachable(3) [of cfg inputs] assms
  have at: "9 \<le> pc_index (pc ?st)" and d: "d = localRank ?st"
    by (simp_all add: device_inv_def)
  from data_inv_reachable(1) [of cfg inputs] at
  have r: "0 \<le> myRank ?st" "myRank ?st < nRanks ?st" "length (hostHashs ?st) = nat (nRanks ?st)"
    "getHostHash cfg (hostname ?st) = Some (hostHashs ?st ! nat (myRank ?st))"
    "localRank ?st = same_host_before (hostHashs ?st) (myRank ?st)"
    by (simp_all add: rank_inv_def)
  from data_inv_reachable(2) [of cfg inputs] at
  have ex: "\<exists>buf. Call_gethostname buf \<in> set (trace ?st)"
    and name: "\<And>buf. Call_gethostname buf \<in> set (trace ?st) \<Longrightarrow>
      getHostName_loop buf 1024 0 = Some (hostname ?st)"
    by (simp_all add: hostname_inv_def)
  have hash: "hostHashs ?st ! nat (myRank ?st) = djb2a (char_is_signed cfg) (truncate_at_dot buf)"
    if "Call_gethostname buf \<in> set (trace ?st)" "length buf = 1024"
    using hostname_hash [OF _ name [OF that(1)] r(4)] that(2) by simp
  from r d ex hash show ?thesis
    by (simp add: same_host_before_def)
qed

theorem C5_device_index_witness:
  "Call_cudaSetDevice 1 \<in> set (trace (run example_config example_bootstrap main_entry))
   \<and> myRank (run example_config example_bootstrap main_entry) = 2
   \<and> hostHashs (run example_config example_bootstrap main_entry) =
       [1, 8242930826616061236, 8242930826616061236, 8242930826616061236]
   \<and> Call_gethostname example_hostname
       \<in> set (trace (run example_config example_bootstrap main_entry))
   \<and> length example_hostname = 1024
   \<and> djb2a True (truncate_at_dot example_hostname) = 8242930826616061236
   \<and> (1::int) = int (length (filter
         (\<lambda>p. hostHashs (run example_config example_bootstrap main_entry) ! p =
               hostHashs (run example_config example_bootstrap main_entry) ! nat 2)
         [0..<nat 2]))"
proof -
  have a: "Call_cudaSetDevice 1 \<in> set (trace (run example_config example_bootstrap main_entry))"
    by code_simp
  have b: "myRank (run example_config example_bootstrap main_entry) = 2"
    "hostHashs (run example_config example_bootstrap main_entry) =
       [1, 8242930826616061236, 8242930826616061236, 8242930826616061236]"
    by code_simp+
  have c: "Call_gethostname example_hostname
      \<in> set (trace (run example_config example_bootstrap main_entry))"
    "length example_hostname = 1024"
    by code_simp+
  have s: "char_is_signed example_config = True"
    by (simp add: example_config_def)
  from C5_device_index_counts_same_host_ranks_below [OF a, of example_hostname] c
  have "hostHashs (run example_config example_bootstrap main_entry)
          ! nat (myRank (run example_config example_bootstrap main_entry)) =
        djb2a (char_is_signed example_config) (truncate_at_dot example_hostname)"
    by blast
  then have h: "djb2a True (truncate_at_dot example_hostname) = 8242930826616061236"
    by (simp add: s b)
  have n: "(1::int) = int (length (filter
         (\<lambda>p. hostHashs (run example_config example_bootstrap main_entry) ! p =
               hostHashs (run example_config example_bootstrap main_entry) ! nat 2)
         [0..<nat 2]))"
    unfolding b by code_simp
  from a b c h n show ?thesis
    by blast
qed

end
